theory Spec2Isabelle
  imports Complex_Main
begin

section \<open>Butterfly factorisations: a shallow embedding of butterfly.py\<close>

text \<open>
  Representation. A float tensor is read over the real numbers. A real tensor of
  shape \<open>(n,)\<close> is a \<open>real list\<close>; a complex tensor of shape \<open>(n, 2)\<close>, whose trailing
  axis holds (real, imaginary), is a \<open>complex list\<close> (\<open>Complex re im\<close> is the pair);
  a matrix is the list of its rows, and a batch of inputs \<open>(B, n)\<close> is the list of its
  \<open>B\<close> rows. The constructor flag \<open>complex\<close> of the source is the element type.
  Every exception of the source is a value \<open>Inl e\<close>.
\<close>

datatype error =
    AssertionError string
  | RuntimeError
  | ValueError
  | TypeError
  | AttributeError
  | NonFinite

text \<open>
  \<open>RuntimeError\<close> is what torch raises on a shape mismatch or a negative dimension,
  \<open>ValueError\<close> is the math domain error of \<open>math.log2\<close>, \<open>TypeError\<close> is
  \<open>functools.reduce\<close> on an empty sequence, \<open>AttributeError\<close> is the read of an
  attribute that the constructor did not set. \<open>NonFinite\<close> is not an exception: it
  marks a float result that is \<open>nan\<close> or infinite and so has no value in this model.
\<close>

definition bindE :: "error + 'a \<Rightarrow> ('a \<Rightarrow> error + 'b) \<Rightarrow> error + 'b" where
  "bindE m f = (case m of Inl e \<Rightarrow> Inl e | Inr x \<Rightarrow> f x)"

fun mapE :: "('a \<Rightarrow> error + 'b) \<Rightarrow> 'a list \<Rightarrow> error + 'b list" where
  "mapE f [] = Inr []"
| "mapE f (x # xs) =
     (case f x of Inl e \<Rightarrow> Inl e
      | Inr y \<Rightarrow> (case mapE f xs of Inl e \<Rightarrow> Inl e | Inr ys \<Rightarrow> Inr (y # ys)))"

subsection \<open>Random initialisation\<close>

text \<open>
  \<open>torch.randn(shape)\<close>: the values come from a generator \<open>g\<close> that the model takes as
  a parameter; a negative dimension raises.
\<close>

definition randn :: "(nat \<Rightarrow> 'a) \<Rightarrow> int \<Rightarrow> error + 'a list" where
  "randn g n = (if n < 0 then Inl RuntimeError else Inr (map g [0..<nat n]))"

definition randn2 :: "(nat \<Rightarrow> nat \<Rightarrow> 'a) \<Rightarrow> int \<Rightarrow> int \<Rightarrow> error + 'a list list" where
  "randn2 g r c =
     (if r < 0 \<or> c < 0 then Inl RuntimeError
      else Inr (map (\<lambda>i. map (g i) [0..<nat c]) [0..<nat r]))"

subsection \<open>Butterfly: construction\<close>

record 'a Butterfly =
  bsize :: int
  diagonal :: int
  diag :: "'a list"
  subdiag :: "'a list"
  superdiag :: "'a list"

text \<open>
  \<open>Butterfly.__init__\<close>. An explicit tensor of the element type has shape
  \<open>(length t,)\<close>, or \<open>(length t, 2)\<close> when complex, so \<open>t.shape == diag_shape\<close> is
  \<open>int (length t) = size\<close>. The generator \<open>g c\<close> feeds the \<open>c\<close>-th call of
  \<open>torch.randn\<close>.
\<close>

definition init_param ::
  "(nat \<Rightarrow> 'a) \<Rightarrow> string \<Rightarrow> int \<Rightarrow> 'a list option \<Rightarrow> error + 'a list" where
  "init_param g msg len t =
     (case t of
        None \<Rightarrow> randn g len
      | Some v \<Rightarrow> if int (length v) = len then Inr v else Inl (AssertionError msg))"

definition Butterfly_init ::
  "(nat \<Rightarrow> nat \<Rightarrow> 'a) \<Rightarrow> int \<Rightarrow> int \<Rightarrow> 'a list option \<Rightarrow> 'a list option \<Rightarrow> 'a list option
     \<Rightarrow> error + 'a Butterfly" where
  "Butterfly_init g size0 diagonal0 diag0 subdiag0 superdiag0 =
     (if \<not> size0 > diagonal0 then Inl (AssertionError ''size must be larger than diagonal'')
      else
        bindE (init_param (g 0) ''diag must have shape'' size0 diag0) (\<lambda>d.
        bindE (init_param (g 1) ''subdiag must have shape'' (size0 - diagonal0) subdiag0) (\<lambda>sb.
        bindE (init_param (g 2) ''superdiag must have shape'' (size0 - diagonal0) superdiag0) (\<lambda>sp.
          Inr \<lparr>bsize = size0, diagonal = diagonal0, diag = d, subdiag = sb, superdiag = sp\<rparr>))))"

subsection \<open>MatrixProduct: construction\<close>

text \<open>
  A selection logit is a float that may be \<open>-inf\<close> (the degenerate one-hot rows of
  \<open>test_butterfly_product\<close>); \<open>+inf\<close> and \<open>nan\<close> are outside the model.
\<close>

datatype logit_val = Fin real | NegInf

type_synonym softmax_t = "logit_val list \<Rightarrow> error + real list"

record 'a MatrixProduct =
  factors :: "'a Butterfly list"
  n_terms :: int
  fixed_order :: bool
  logit :: "logit_val list list option"
  softmax_fn :: "softmax_t option"

text \<open>
  \<open>nn.functional.softmax(logit, dim=-1)\<close> on one row. \<open>exp(-inf)\<close> is 0; a row with no
  finite entry gives \<open>nan\<close>.
\<close>

definition exp_logit :: "logit_val \<Rightarrow> real" where
  "exp_logit l = (case l of Fin x \<Rightarrow> exp x | NegInf \<Rightarrow> 0)"

definition softmax :: softmax_t where
  "softmax row =
     (let es = map exp_logit row; s = sum_list es
      in if row \<noteq> [] \<and> s = 0 then Inl NonFinite else Inr (map (\<lambda>e. e / s) es))"

text \<open>
  \<open>MatrixProduct.__init__\<close>. The module \<open>sparsemax\<close> is not part of the sources; its
  function is the parameter \<open>sparsemax\<close>. \<open>n_terms\<close> is \<open>None\<close> or an integer.
\<close>

definition MatrixProduct_init ::
  "softmax_t \<Rightarrow> (nat \<Rightarrow> nat \<Rightarrow> real) \<Rightarrow> 'a Butterfly list \<Rightarrow> int option \<Rightarrow> bool \<Rightarrow> string
     \<Rightarrow> error + 'a MatrixProduct" where
  "MatrixProduct_init sparsemax g factors0 n_terms0 fixed_order0 softmax_fn0 =
     (let nt = (case n_terms0 of None \<Rightarrow> int (length factors0) | Some t \<Rightarrow> t)
      in if fixed_order0 then
           Inr \<lparr>factors = factors0, n_terms = nt, fixed_order = True,
                logit = None, softmax_fn = None\<rparr>
         else if softmax_fn0 \<notin> set [''softmax'', ''sparsemax''] then Inl (AssertionError [])
         else
           bindE (randn2 g nt (int (length factors0))) (\<lambda>lg.
             Inr \<lparr>factors = factors0, n_terms = nt, fixed_order = False,
                  logit = Some (map (map Fin) lg),
                  softmax_fn = Some (if softmax_fn0 = ''softmax'' then softmax else sparsemax)\<rparr>))"

subsection \<open>ButterflyProduct: construction\<close>

record 'a ButterflyProduct = "'a MatrixProduct" +
  learn_perm :: bool
  perm_logit :: "real list list option"

text \<open>
  \<open>int(math.log2(size))\<close> for a positive integer. \<open>math.log2\<close> is exact on powers of
  two; on any other size the assertion \<open>size == 1 << m\<close> fails whatever the rounding,
  so the exact floor of the logarithm gives the same outcome.
\<close>

fun ilog2 :: "nat \<Rightarrow> nat" where
  "ilog2 n = (if n < 2 then 0 else Suc (ilog2 (n div 2)))"

text \<open>
  \<open>ButterflyProduct.__init__\<close>. \<open>gf i\<close> is the generator of the factor with offset
  \<open>2 ^ i\<close>, \<open>gl\<close> that of the selection logits, \<open>gp\<close> that of the permutation logits.
\<close>

definition ButterflyProduct_init ::
  "softmax_t \<Rightarrow> (nat \<Rightarrow> nat \<Rightarrow> nat \<Rightarrow> 'a) \<Rightarrow> (nat \<Rightarrow> nat \<Rightarrow> real) \<Rightarrow> (nat \<Rightarrow> nat \<Rightarrow> real)
     \<Rightarrow> int \<Rightarrow> int option \<Rightarrow> bool \<Rightarrow> bool \<Rightarrow> string \<Rightarrow> error + 'a ButterflyProduct" where
  "ButterflyProduct_init sparsemax gf gl gp size0 n_terms0 fixed_order0 learn_perm0 softmax_fn0 =
     (if size0 \<le> 0 then Inl ValueError
      else
        let m = ilog2 (nat size0)
        in if size0 \<noteq> 2 ^ m then Inl (AssertionError ''size must be a power of 2'')
           else
             bindE (mapE (\<lambda>i. Butterfly_init (gf i) size0 (2 ^ i) None None None) (rev [0..<m])) (\<lambda>fs.
             bindE (MatrixProduct_init sparsemax gl fs n_terms0 fixed_order0 softmax_fn0) (\<lambda>mp.
             bindE (if learn_perm0 then bindE (randn2 gp size0 size0) (\<lambda>pl. Inr (Some pl))
                    else Inr None) (\<lambda>pl.
               Inr \<lparr>factors = factors mp, n_terms = n_terms mp, fixed_order = fixed_order mp,
                    logit = logit mp, softmax_fn = softmax_fn mp,
                    learn_perm = learn_perm0, perm_logit = pl\<rparr>))))"

subsection \<open>Tensor operations of torch\<close>

text \<open>
  Broadcasting of two axes: equal lengths, or one of them of length 1; anything else
  raises. An in-place update keeps the shape of its target, so only the right-hand
  side may be expanded.
\<close>

definition bdim :: "nat \<Rightarrow> nat \<Rightarrow> nat option" where
  "bdim a b = (if a = b then Some a else if a = 1 then Some b else if b = 1 then Some a else None)"

definition expand :: "nat \<Rightarrow> 'a list \<Rightarrow> 'a list" where
  "expand n xs = (if length xs = n then xs else replicate n (hd xs))"

definition bzip :: "('a \<Rightarrow> 'b \<Rightarrow> 'c) \<Rightarrow> 'a list \<Rightarrow> 'b list \<Rightarrow> error + 'c list" where
  "bzip f xs ys =
     (case bdim (length xs) (length ys) of
        None \<Rightarrow> Inl RuntimeError
      | Some n \<Rightarrow> Inr (map2 f (expand n xs) (expand n ys)))"

definition badd2 :: "'a::plus list list \<Rightarrow> 'a list list \<Rightarrow> error + 'a list list" where
  "badd2 A B =
     (case bdim (length A) (length B) of
        None \<Rightarrow> Inl RuntimeError
      | Some r \<Rightarrow> mapE (\<lambda>(a, b). bzip (+) a b) (zip (expand r A) (expand r B)))"

definition iadd :: "'a::plus list \<Rightarrow> 'a list \<Rightarrow> error + 'a list" where
  "iadd tgt rhs =
     (if length rhs = length tgt then Inr (map2 (+) tgt rhs)
      else if length rhs = 1 then Inr (map (\<lambda>x. x + hd rhs) tgt)
      else Inl RuntimeError)"

text \<open>Python slice bounds: a negative bound counts from the end, and both are clipped.\<close>

definition py_bound :: "int \<Rightarrow> nat \<Rightarrow> nat" where
  "py_bound k n = (if k < 0 then nat (max 0 (int n + k)) else min (nat k) n)"

definition slice_from :: "int \<Rightarrow> 'a list \<Rightarrow> 'a list" where
  "slice_from k xs = drop (py_bound k (length xs)) xs"

definition slice_to :: "int \<Rightarrow> 'a list \<Rightarrow> 'a list" where
  "slice_to k xs = take (py_bound k (length xs)) xs"

definition iadd_from :: "int \<Rightarrow> 'a::plus list \<Rightarrow> 'a list \<Rightarrow> error + 'a list" where
  "iadd_from k out rhs =
     bindE (iadd (slice_from k out) rhs) (\<lambda>s. Inr (take (py_bound k (length out)) out @ s))"

definition iadd_to :: "int \<Rightarrow> 'a::plus list \<Rightarrow> 'a list \<Rightarrow> error + 'a list" where
  "iadd_to k out rhs =
     bindE (iadd (slice_to k out) rhs) (\<lambda>s. Inr (s @ drop (py_bound k (length out)) out))"

text \<open>
  \<open>torch.diag(v, off)\<close> of a vector: the square matrix of size \<open>length v + |off|\<close> with
  \<open>v\<close> on the diagonal \<open>off\<close> (above the main diagonal when \<open>off > 0\<close>).
\<close>

definition torch_diag :: "'a::zero list \<Rightarrow> int \<Rightarrow> 'a list list" where
  "torch_diag v off =
     (let n = length v + nat \<bar>off\<bar>
      in map (\<lambda>i. map (\<lambda>j. if int j - int i = off then v ! (min i j) else 0) [0..<n]) [0..<n])"

text \<open>
  \<open>v.t()\<close> of a complex vector of shape \<open>(L, 2)\<close> is the pair of rows (real parts,
  imaginary parts), and \<open>torch.diag_embed(.., off, dim1=0, dim2=1)\<close> embeds each row
  as a diagonal slab, the two slabs forming the trailing axis.
\<close>

definition t_pair :: "complex list \<Rightarrow> real list \<times> real list" where
  "t_pair v = (map Re v, map Im v)"

definition diag_embed :: "real list \<times> real list \<Rightarrow> int \<Rightarrow> complex list list" where
  "diag_embed p off = map2 (map2 Complex) (torch_diag (fst p) off) (torch_diag (snd p) off)"

text \<open>Matrices: number of columns, a column, \<open>.t()\<close>, and the matrix product.\<close>

definition ncols :: "'a list list \<Rightarrow> nat" where
  "ncols M = (case M of [] \<Rightarrow> 0 | r # _ \<Rightarrow> length r)"

definition col :: "nat \<Rightarrow> 'a list list \<Rightarrow> 'a list" where
  "col j M = map (\<lambda>r. r ! j) M"

definition t_mat :: "'a list list \<Rightarrow> 'a list list" where
  "t_mat M = map (\<lambda>j. col j M) [0..<ncols M]"

definition dot :: "('a \<Rightarrow> 'b \<Rightarrow> 'c::monoid_add) \<Rightarrow> 'a list \<Rightarrow> 'b list \<Rightarrow> 'c" where
  "dot mul xs ys = sum_list (map2 mul xs ys)"

definition matmul ::
  "('a \<Rightarrow> 'b \<Rightarrow> 'c::monoid_add) \<Rightarrow> 'a list list \<Rightarrow> 'b list list \<Rightarrow> error + 'c list list" where
  "matmul mul A B =
     (if A \<noteq> [] \<and> ncols A \<noteq> length B then Inl RuntimeError
      else Inr (map (\<lambda>r. map (\<lambda>j. dot mul r (col j B)) [0..<ncols B]) A))"

text \<open>
  Modelled from the spec: \<open>complex_utils\<close> (\<open>complex_mul\<close>, \<open>complex_matmul\<close>) is not
  part of the sources. The spec gives the combination rule
  \<open>(ar*br - ai*bi, ar*bi + ai*br)\<close> and calls \<open>complex_matmul\<close> the standard matrix
  multiplication on operands stored this way.
\<close>

definition complex_mul :: "complex \<Rightarrow> complex \<Rightarrow> complex" where
  "complex_mul a b = Complex (Re a * Re b - Im a * Im b) (Re a * Im b + Im a * Re b)"

definition complex_matmul :: "complex list list \<Rightarrow> complex list list \<Rightarrow> error + complex list list" where
  "complex_matmul A B = matmul complex_mul A B"

text \<open>
  \<open>A @ P\<close> of torch for a complex \<open>A\<close> of shape \<open>(n, n, 2)\<close> and a real \<open>P\<close>: a batch of
  \<open>n\<close> products of an \<open>(n, 2)\<close> matrix with \<open>P\<close>, so \<open>P\<close> must have 2 rows; the
  trailing axis of the result has the columns of \<open>P\<close>, read as a pair when there are 2.
\<close>

definition matmul_batched :: "complex list list \<Rightarrow> real list list \<Rightarrow> error + complex list list" where
  "matmul_batched A P =
     (if length P \<noteq> 2 \<or> ncols P \<noteq> 2 then Inl RuntimeError
      else Inr (map (map (\<lambda>z. Complex (Re z * P ! 0 ! 0 + Im z * P ! 1 ! 0)
                                     (Re z * P ! 0 ! 1 + Im z * P ! 1 ! 1))) A))"

text \<open>
  \<open>(X.transpose(-1, -2) @ P.t()).transpose(-1, -2)\<close> for a complex batch \<open>X\<close> of shape
  \<open>(B, n, 2)\<close>: the real and the imaginary parts are multiplied by \<open>P.t()\<close> separately.
\<close>

definition matmul_parts :: "complex list list \<Rightarrow> real list list \<Rightarrow> error + complex list list" where
  "matmul_parts X Pt =
     bindE (matmul (*) (map (map Re) X) Pt) (\<lambda>re.
     bindE (matmul (*) (map (map Im) X) Pt) (\<lambda>im.
       Inr (map2 (map2 Complex) re im)))"

text \<open>\<open>functools.reduce\<close> without an initial value.\<close>

fun reduce_from :: "('a \<Rightarrow> 'a \<Rightarrow> error + 'a) \<Rightarrow> 'a \<Rightarrow> 'a list \<Rightarrow> error + 'a" where
  "reduce_from f acc [] = Inr acc"
| "reduce_from f acc (y # ys) = bindE (f acc y) (\<lambda>a. reduce_from f a ys)"

definition reduce :: "('a \<Rightarrow> 'a \<Rightarrow> error + 'a) \<Rightarrow> 'a list \<Rightarrow> error + 'a" where
  "reduce f xs = (case xs of [] \<Rightarrow> Inl TypeError | x # r \<Rightarrow> reduce_from f x r)"

text \<open>
  \<open>torch.stack\<close> raises on an empty list and on tensors of different shapes.
  \<open>(p @ stack.reshape(m, -1)).reshape(stack.shape[1:])\<close> is the sum of the stacked
  tensors weighted by the row \<open>p\<close>; the weights are real also when the tensors are
  complex, and act on the real and the imaginary part alike.
\<close>

definition stack :: "'a list list list \<Rightarrow> error + 'a list list list" where
  "stack Ms =
     (if Ms = [] then Inl RuntimeError
      else if \<exists>M \<in> set Ms. length M \<noteq> length (hd Ms) \<or> ncols M \<noteq> ncols (hd Ms)
      then Inl RuntimeError
      else Inr Ms)"

definition mix :: "real list \<Rightarrow> 'a::real_vector list list list \<Rightarrow> error + 'a list list" where
  "mix p Ms =
     (if length p \<noteq> length Ms then Inl RuntimeError
      else Inr (map (\<lambda>r. map (\<lambda>c. \<Sum>j\<leftarrow>[0..<length Ms]. (p ! j) *\<^sub>R (Ms ! j ! r ! c))
                             [0..<ncols (hd Ms)])
                    [0..<length (hd Ms)]))"

subsection \<open>The two variants\<close>

text \<open>
  The flag \<open>complex\<close> selects, in the source, between two branches at each place
  listed here; the model passes the selected operations along.
\<close>

record 'a variant =
  mul_op :: "'a \<Rightarrow> 'a \<Rightarrow> 'a"
  matmul_op :: "'a list list \<Rightarrow> 'a list list \<Rightarrow> error + 'a list list"
  diag_matrix :: "'a list \<Rightarrow> int \<Rightarrow> 'a list list"
  matmul_perm :: "'a list list \<Rightarrow> real list list \<Rightarrow> error + 'a list list"
  input_perm :: "'a list list \<Rightarrow> real list list \<Rightarrow> error + 'a list list"

definition real_variant :: "real variant" where
  "real_variant =
     \<lparr>mul_op = (*), matmul_op = matmul (*), diag_matrix = torch_diag,
      matmul_perm = matmul (*), input_perm = matmul (*)\<rparr>"

definition complex_variant :: "complex variant" where
  "complex_variant =
     \<lparr>mul_op = complex_mul, matmul_op = complex_matmul,
      diag_matrix = (\<lambda>v off. diag_embed (t_pair v) off),
      matmul_perm = matmul_batched, input_perm = matmul_parts\<rparr>"

subsection \<open>Butterfly: matrix and forward\<close>

definition Butterfly_matrix :: "'a::{zero,plus} variant \<Rightarrow> 'a Butterfly \<Rightarrow> error + 'a list list" where
  "Butterfly_matrix V B =
     bindE (badd2 (diag_matrix V (diag B) 0) (diag_matrix V (subdiag B) (- diagonal B))) (\<lambda>s.
       badd2 s (diag_matrix V (superdiag B) (diagonal B)))"

definition forward_row :: "'a::plus variant \<Rightarrow> 'a Butterfly \<Rightarrow> 'a list \<Rightarrow> error + 'a list" where
  "forward_row V B x =
     bindE (bzip (mul_op V) (diag B) x) (\<lambda>out.
     bindE (bzip (mul_op V) (subdiag B) (slice_to (- diagonal B) x)) (\<lambda>r1.
     bindE (iadd_from (diagonal B) out r1) (\<lambda>out1.
     bindE (bzip (mul_op V) (superdiag B) (slice_from (diagonal B) x)) (\<lambda>r2.
       iadd_to (- diagonal B) out1 r2))))"

definition Butterfly_forward ::
  "'a::plus variant \<Rightarrow> 'a Butterfly \<Rightarrow> 'a list list \<Rightarrow> error + 'a list list" where
  "Butterfly_forward V B X = mapE (forward_row V B) X"

subsection \<open>MatrixProduct: matrix and forward\<close>

text \<open>\<open>self.logit / temperature\<close>, then the selection function on each row.\<close>

definition div_logit :: "real \<Rightarrow> logit_val \<Rightarrow> error + logit_val" where
  "div_logit t l =
     (case l of
        Fin x \<Rightarrow> if t = 0 then Inl NonFinite else Inr (Fin (x / t))
      | NegInf \<Rightarrow> if t > 0 then Inr NegInf else Inl NonFinite)"

definition probs :: "('a, 'z) MatrixProduct_scheme \<Rightarrow> real \<Rightarrow> error + real list list" where
  "probs mp temperature =
     (case (logit mp, softmax_fn mp) of
        (Some lg, Some sf) \<Rightarrow> mapE (\<lambda>row. bindE (mapE (div_logit temperature) row) sf) lg
      | _ \<Rightarrow> Inl AttributeError)"

definition MatrixProduct_matrix ::
  "'a::{real_vector} variant \<Rightarrow> ('a, 'z) MatrixProduct_scheme \<Rightarrow> real \<Rightarrow> error + 'a list list" where
  "MatrixProduct_matrix V mp temperature =
     (if fixed_order mp then
        bindE (mapE (Butterfly_matrix V) (factors mp)) (\<lambda>matrices.
          reduce (matmul_op V) matrices)
      else
        bindE (probs mp temperature) (\<lambda>prob.
        bindE (mapE (Butterfly_matrix V) (factors mp)) (\<lambda>ms.
        bindE (stack ms) (\<lambda>st.
        bindE (mapE (\<lambda>p. mix p st) prob) (\<lambda>matrices.
          reduce (matmul_op V) matrices)))))"

fun chain :: "('b \<Rightarrow> 'a \<Rightarrow> error + 'a) \<Rightarrow> 'b list \<Rightarrow> 'a \<Rightarrow> error + 'a" where
  "chain f [] x = Inr x"
| "chain f (i # is) x = bindE (f i x) (chain f is)"

definition soft_step ::
  "'a::real_vector variant \<Rightarrow> ('a, 'z) MatrixProduct_scheme \<Rightarrow> real list list \<Rightarrow> nat
     \<Rightarrow> 'a list list \<Rightarrow> error + 'a list list" where
  "soft_step V mp prob i output =
     bindE (mapE (\<lambda>factor. Butterfly_forward V factor output) (factors mp)) (\<lambda>outs.
     bindE (stack outs) (\<lambda>st.
       if i < length prob then mix (prob ! i) st else Inl RuntimeError))"

definition MatrixProduct_forward ::
  "'a::real_vector variant \<Rightarrow> ('a, 'z) MatrixProduct_scheme \<Rightarrow> 'a list list \<Rightarrow> real
     \<Rightarrow> error + 'a list list" where
  "MatrixProduct_forward V mp input temperature =
     (if fixed_order mp then chain (Butterfly_forward V) (rev (factors mp)) input
      else
        bindE (probs mp temperature) (\<lambda>prob.
          chain (soft_step V mp prob) (rev [0..<nat (n_terms mp)]) input))"

subsection \<open>sinkhorn\<close>

text \<open>
  \<open>sinkhorn\<close> updates its argument in place (\<open>logit -= ...\<close>) and returns a fresh
  tensor: the model returns the pair (contents of the argument tensor after the call,
  returned tensor). The logits are a matrix, the list of its rows.

  The loop computes with the arithmetic of the tensor: the subtraction,
  \<open>torch.logsumexp\<close> along an axis and \<open>torch.exp\<close>; its caller divides the logits
  by the temperature. These operations are a parameter of the model, so that what is
  proved for every arithmetic holds for the rounded operations of the floats;
  \<open>exact\<close> is the arithmetic of the real numbers.
\<close>

record 'f arith =
  sub_op :: "'f \<Rightarrow> 'f \<Rightarrow> 'f"
  logsumexp_op :: "'f list \<Rightarrow> 'f"
  exp_op :: "'f \<Rightarrow> 'f"
  div_op :: "'f \<Rightarrow> 'f \<Rightarrow> 'f"



text \<open>
  \<open>logit -= torch.logsumexp(logit, dim=-1, keepdim=True)\<close> subtracts from each entry
  the log-sum-exp of its row, \<open>dim=-2\<close> that of its column; one iteration of the loop
  is the first followed by the second.
\<close>

definition sub_rows :: "'f arith \<Rightarrow> 'f list list \<Rightarrow> 'f list list" where
  "sub_rows ar L = map (\<lambda>r. map (\<lambda>x. sub_op ar x (logsumexp_op ar r)) r) L"

definition sub_cols :: "'f arith \<Rightarrow> 'f list list \<Rightarrow> 'f list list" where
  "sub_cols ar L =
     map (\<lambda>r. map (\<lambda>j. sub_op ar (r ! j) (logsumexp_op ar (col j L))) [0..<length r]) L"

definition sinkhorn_step :: "'f arith \<Rightarrow> 'f list list \<Rightarrow> 'f list list" where
  "sinkhorn_step ar L = sub_cols ar (sub_rows ar L)"

fun sinkhorn_loop :: "'f arith \<Rightarrow> nat \<Rightarrow> 'f list list \<Rightarrow> 'f list list" where
  "sinkhorn_loop ar 0 L = L"
| "sinkhorn_loop ar (Suc n) L = sinkhorn_loop ar n (sinkhorn_step ar L)"

definition sinkhorn ::
  "'f arith \<Rightarrow> 'f list list \<Rightarrow> int \<Rightarrow> error + 'f list list \<times> 'f list list" where
  "sinkhorn ar L n_iters =
     (if length L \<noteq> ncols L then Inl (AssertionError ''logit must be a square matrix'')
      else let L' = sinkhorn_loop ar (nat n_iters) L in Inr (L', map (map (exp_op ar)) L'))"

subsection \<open>ButterflyProduct: matrix and forward\<close>

text \<open>
  \<open>sinkhorn(self.perm_logit / temperature)\<close>: the argument is the temporary tensor of
  the division, so the update in place is lost and only the returned tensor is used.
  A division by \<open>temperature = 0\<close> leaves the finite floats. The permutation is
  computed in the arithmetic \<open>ar\<close>.
\<close>

definition perm_of ::
  "real arith \<Rightarrow> ('a, 'z) ButterflyProduct_scheme \<Rightarrow> real \<Rightarrow> error + real list list" where
  "perm_of ar bp temperature =
     (case perm_logit bp of
        None \<Rightarrow> Inl AttributeError
      | Some pl \<Rightarrow>
          if temperature = 0 \<and> pl \<noteq> [] then Inl NonFinite
          else bindE (sinkhorn ar (map (map (\<lambda>x. div_op ar x temperature)) pl) 5)
                 (\<lambda>r. Inr (snd r)))"

definition ButterflyProduct_matrix ::
  "'a::real_vector variant \<Rightarrow> real arith \<Rightarrow> ('a, 'z) ButterflyProduct_scheme \<Rightarrow> real
     \<Rightarrow> error + 'a list list" where
  "ButterflyProduct_matrix V ar bp temperature =
     bindE (MatrixProduct_matrix V bp temperature) (\<lambda>matrix.
       if learn_perm bp then
         bindE (perm_of ar bp temperature) (\<lambda>perm. matmul_perm V matrix perm)
       else Inr matrix)"

definition ButterflyProduct_forward ::
  "'a::real_vector variant \<Rightarrow> real arith \<Rightarrow> ('a, 'z) ButterflyProduct_scheme \<Rightarrow> 'a list list
     \<Rightarrow> real \<Rightarrow> error + 'a list list" where
  "ButterflyProduct_forward V ar bp input temperature =
     (if learn_perm bp then
        bindE (perm_of ar bp temperature) (\<lambda>perm.
        bindE (input_perm V input (t_mat perm)) (\<lambda>inp.
          MatrixProduct_forward V bp inp temperature))
      else MatrixProduct_forward V bp input temperature)"

subsection \<open>Sample inputs\<close>

text \<open>
  Generators that return 0 everywhere, and the parameters of \<open>test_butterfly\<close>:
  \<open>diag = [[1, 2], [2, 3], [3, 4], [4, 5]]\<close>, \<open>subdiag = [[11, 12], [12, 13], [13, 14]]\<close>.
\<close>

definition zero_gen :: "nat \<Rightarrow> nat \<Rightarrow> real" where
  "zero_gen i j = 0"

definition zero_gen_c :: "nat \<Rightarrow> nat \<Rightarrow> complex" where
  "zero_gen_c i j = 0"

definition zero_gen3 :: "nat \<Rightarrow> nat \<Rightarrow> nat \<Rightarrow> real" where
  "zero_gen3 f i j = 0"

definition zero_gen3_c :: "nat \<Rightarrow> nat \<Rightarrow> nat \<Rightarrow> complex" where
  "zero_gen3_c f i j = 0"

definition test_diag :: "complex list" where
  "test_diag = [Complex 1 2, Complex 2 3, Complex 3 4, Complex 4 5]"

definition test_subdiag :: "complex list" where
  "test_subdiag = [Complex 11 12, Complex 12 13, Complex 13 14]"

text \<open>The factor that \<open>Butterfly(size, diagonal)\<close> builds from the generator \<open>g\<close>.\<close>

definition random_factor :: "(nat \<Rightarrow> nat \<Rightarrow> 'a) \<Rightarrow> int \<Rightarrow> int \<Rightarrow> 'a Butterfly" where
  "random_factor g n k =
     \<lparr>bsize = n, diagonal = k, diag = map (g 0) [0..<nat n],
      subdiag = map (g 1) [0..<nat (n - k)], superdiag = map (g 2) [0..<nat (n - k)]\<rparr>"

text \<open>
  The dense matrix with \<open>d\<close> on the main diagonal, \<open>sb\<close> on the \<open>k\<close>-th subdiagonal and
  \<open>sp\<close> on the \<open>k\<close>-th superdiagonal, and the factors whose offset and parameter
  lengths are those of a construction with \<open>0 < k < n\<close>.
\<close>

definition band_matrix :: "'a::{zero,plus} list \<Rightarrow> 'a list \<Rightarrow> 'a list \<Rightarrow> nat \<Rightarrow> nat \<Rightarrow> 'a list list" where
  "band_matrix d sb sp k n =
     map (\<lambda>i. map (\<lambda>j. (if j = i then d ! i else 0) + (if j + k = i then sb ! j else 0)
                         + (if j = i + k then sp ! i else 0)) [0..<n]) [0..<n]"

definition valid_factor :: "'a Butterfly \<Rightarrow> bool" where
  "valid_factor B \<longleftrightarrow>
     0 < diagonal B \<and> diagonal B < bsize B \<and> int (length (diag B)) = bsize B
     \<and> int (length (subdiag B)) = bsize B - diagonal B
     \<and> int (length (superdiag B)) = bsize B - diagonal B"

definition sample_factor :: "real Butterfly" where
  "sample_factor = \<lparr>bsize = 2, diagonal = 1, diag = [1, 2], subdiag = [3], superdiag = [4]\<rparr>"

definition test_factor :: "complex Butterfly" where
  "test_factor =
     \<lparr>bsize = 4, diagonal = 1, diag = test_diag, subdiag = test_subdiag,
      superdiag = test_subdiag\<rparr>"

text \<open>The matrix of a factor with \<open>0 < k < n\<close>.\<close>

definition factor_matrix :: "'a::{zero,plus} Butterfly \<Rightarrow> 'a list list" where
  "factor_matrix B =
     band_matrix (diag B) (subdiag B) (superdiag B) (nat (diagonal B)) (nat (bsize B))"

text \<open>
  The product that \<open>ButterflyProduct(4, complex=True, fixed_order=True, learn_perm=True)\<close>
  builds from the generators that return 0.
\<close>

definition test_product :: "complex ButterflyProduct" where
  "test_product =
     \<lparr>factors = [random_factor (zero_gen3_c 1) 4 2, random_factor (zero_gen3_c 0) 4 1],
      n_terms = 2, fixed_order = True, logit = None, softmax_fn = None,
      learn_perm = True, perm_logit = Some (map (\<lambda>i. map (zero_gen i) [0..<4]) [0..<4])\<rparr>"

text \<open>
  \<open>X @ M.t()\<close> for a batch \<open>X\<close>, row by row, and the two composers of the claim over
  factors \<open>F1\<close>, \<open>F2\<close>: \<open>MatrixProduct([F1, F2], fixed_order=True)\<close>, and
  \<open>MatrixProduct([F1, F2])\<close> whose logits have been set to the one-hot rows
  \<open>[[a, -inf], [-inf, b]]\<close> as \<open>test_butterfly_product\<close> does.
\<close>

definition apply_matrix :: "'a::comm_semiring_0 list list \<Rightarrow> 'a list list \<Rightarrow> 'a list list" where
  "apply_matrix M X = map (\<lambda>x. map (dot (*) x) M) X"

definition fixed_composer :: "'a Butterfly \<Rightarrow> 'a Butterfly \<Rightarrow> 'a MatrixProduct" where
  "fixed_composer F1 F2 =
     \<lparr>factors = [F1, F2], n_terms = 2, fixed_order = True, logit = None, softmax_fn = None\<rparr>"

definition onehot_composer :: "real \<Rightarrow> real \<Rightarrow> 'a Butterfly \<Rightarrow> 'a Butterfly \<Rightarrow> 'a MatrixProduct" where
  "onehot_composer a b F1 F2 =
     \<lparr>factors = [F1, F2], n_terms = 2, fixed_order = False,
      logit = Some [[Fin a, NegInf], [NegInf, Fin b]], softmax_fn = Some softmax\<rparr>"

section \<open>Theorems\<close>

lemma bindE_Inr [simp]: "bindE (Inr x) f = f x"
  by (simp add: bindE_def)

lemma bindE_Inl [simp]: "bindE (Inl e) f = Inl e"
  by (simp add: bindE_def)

lemma bindE_eq_Inr: "bindE m f = Inr y \<longleftrightarrow> (\<exists>x. m = Inr x \<and> f x = Inr y)"
  by (cases m) (simp_all add: bindE_def)

lemma upt4: "[0..<4] = [0, 1, 2, 3]"
  by (simp add: upt_rec)

subsection \<open>Construction of a Butterfly\<close>

lemma init_param_ok:
  "(\<exists>v. init_param g msg len t = Inr v) \<longleftrightarrow>
     (case t of None \<Rightarrow> 0 \<le> len | Some v \<Rightarrow> int (length v) = len)"
  by (auto simp: init_param_def randn_def split: option.splits)

lemma init_param_length: "init_param g msg len t = Inr v \<Longrightarrow> int (length v) = len"
  by (auto simp: init_param_def randn_def split: option.splits if_splits)

text \<open>
  C8 (as amended). The constructor checks \<open>size > diagonal\<close> and nothing else about the
  offset: construction succeeds exactly when \<open>k < n\<close>, a randomly initialised diagonal
  has a non-negative length, and every explicitly supplied tensor has the expected
  shape. The factor built has the size, the offset and the parameter lengths
  \<open>n\<close>, \<open>n - k\<close>, \<open>n - k\<close>.
\<close>

theorem Butterfly_init_succeeds_iff:
  "((\<exists>B. Butterfly_init g n k d sb sp = Inr B) \<longleftrightarrow>
     k < n \<and> (case d of None \<Rightarrow> 0 \<le> n | Some v \<Rightarrow> int (length v) = n)
           \<and> (case sb of None \<Rightarrow> True | Some v \<Rightarrow> int (length v) = n - k)
           \<and> (case sp of None \<Rightarrow> True | Some v \<Rightarrow> int (length v) = n - k))
   \<and> (\<forall>B. Butterfly_init g n k d sb sp = Inr B \<longrightarrow>
         bsize B = n \<and> diagonal B = k \<and> int (length (diag B)) = n
         \<and> int (length (subdiag B)) = n - k \<and> int (length (superdiag B)) = n - k)"
proof -
  have iff: "(\<exists>B. Butterfly_init g n k d sb sp = Inr B) \<longleftrightarrow>
     k < n \<and> (case d of None \<Rightarrow> 0 \<le> n | Some v \<Rightarrow> int (length v) = n)
           \<and> (case sb of None \<Rightarrow> True | Some v \<Rightarrow> int (length v) = n - k)
           \<and> (case sp of None \<Rightarrow> True | Some v \<Rightarrow> int (length v) = n - k)"
    using init_param_ok[of "g 0" "''diag must have shape''" n d]
          init_param_ok[of "g 1" "''subdiag must have shape''" "n - k" sb]
          init_param_ok[of "g 2" "''superdiag must have shape''" "n - k" sp]
    by (auto simp: Butterfly_init_def bindE_eq_Inr split: option.splits)
  have fields: "bsize B = n \<and> diagonal B = k \<and> int (length (diag B)) = n
        \<and> int (length (subdiag B)) = n - k \<and> int (length (superdiag B)) = n - k"
    if "Butterfly_init g n k d sb sp = Inr B" for B
    using that
    by (auto simp: Butterfly_init_def bindE_eq_Inr split: if_splits dest: init_param_length)
  from iff fields show ?thesis by blast
qed

theorem Butterfly_init_succeeds_iff_witness:
  "Butterfly_init zero_gen_c 4 1 (Some test_diag) (Some test_subdiag) (Some test_subdiag) =
     Inr \<lparr>bsize = 4, diagonal = 1, diag = test_diag, subdiag = test_subdiag,
          superdiag = test_subdiag\<rparr>
   \<and> int (length test_subdiag) = 4 - 1"
  using Butterfly_init_succeeds_iff
    [of zero_gen_c 4 1 "Some test_diag" "Some test_subdiag" "Some test_subdiag"]
  by (auto simp: Butterfly_init_def init_param_def test_diag_def test_subdiag_def)

text \<open>
  C8 (as stated) fails: the offset 0 is outside \<open>0 < k < n\<close>, and the construction
  \<open>Butterfly(4, diagonal=0)\<close> succeeds.
\<close>

theorem Butterfly_init_offset_zero_succeeds:
  "Butterfly_init zero_gen 4 0 None None None =
     Inr \<lparr>bsize = 4, diagonal = 0, diag = [0, 0, 0, 0], subdiag = [0, 0, 0, 0],
          superdiag = [0, 0, 0, 0]\<rparr>"
  by (simp add: Butterfly_init_def init_param_def randn_def zero_gen_def upt_rec eval_nat_numeral)

subsection \<open>The matrix of the factor of test_butterfly\<close>

text \<open>
  C7. The complex factor of size 4 with offset 1, \<open>diag = [[1,2],[2,3],[3,4],[4,5]]\<close> and
  \<open>subdiag = superdiag = [[11,12],[12,13],[13,14]]\<close> has a matrix whose real parts are
  \<open>[[1,11,0,0],[11,2,12,0],[0,12,3,13],[0,0,13,4]]\<close> and whose imaginary parts are
  \<open>[[2,12,0,0],[12,3,13,0],[0,13,4,14],[0,0,14,5]]\<close>.
\<close>

theorem test_butterfly_matrix:
  "bindE (Butterfly_init zero_gen_c 4 1 (Some test_diag) (Some test_subdiag) (Some test_subdiag))
     (\<lambda>B. bindE (Butterfly_matrix complex_variant B) (\<lambda>M. Inr (map (map Re) M, map (map Im) M)))
   = Inr ([[1, 11, 0, 0], [11, 2, 12, 0], [0, 12, 3, 13], [0, 0, 13, 4]],
          [[2, 12, 0, 0], [12, 3, 13, 0], [0, 13, 4, 14], [0, 0, 14, 5]])"
  by (simp add: Butterfly_init_def init_param_def test_diag_def test_subdiag_def
      Butterfly_matrix_def complex_variant_def diag_embed_def t_pair_def torch_diag_def
      badd2_def bdim_def expand_def bzip_def upt4 Let_def)

subsection \<open>Construction of a MatrixProduct\<close>

text \<open>
  C9 (as amended). The name of the selection function is checked only in learned-order
  mode: there, a name other than \<open>softmax\<close> and \<open>sparsemax\<close> raises at construction
  whatever the other arguments; in fixed-order mode the name is not looked at and the
  construction succeeds.
\<close>

theorem MatrixProduct_init_unknown_softmax:
  "softmax_fn0 \<noteq> ''softmax'' \<Longrightarrow> softmax_fn0 \<noteq> ''sparsemax'' \<Longrightarrow>
   MatrixProduct_init sp g fs nt fo softmax_fn0 =
     (if fo then
        Inr \<lparr>factors = fs, n_terms = (case nt of None \<Rightarrow> int (length fs) | Some t \<Rightarrow> t),
             fixed_order = True, logit = None, softmax_fn = None\<rparr>
      else Inl (AssertionError []))"
  by (simp add: MatrixProduct_init_def Let_def)

theorem MatrixProduct_init_unknown_softmax_witness:
  "''relu'' \<noteq> ''softmax'' \<and> ''relu'' \<noteq> ''sparsemax'' \<and>
   MatrixProduct_init softmax zero_gen ([] :: real Butterfly list) (Some 3) False ''relu'' =
     Inl (AssertionError [])"
  using MatrixProduct_init_unknown_softmax
    [of "''relu''" softmax zero_gen "[] :: real Butterfly list" "Some 3" False]
  by simp

text \<open>
  C9 (as stated) fails in fixed-order mode: \<open>MatrixProduct([], fixed_order=True,
  softmax_fn='relu')\<close> is constructed.
\<close>

theorem MatrixProduct_init_fixed_order_ignores_softmax:
  "MatrixProduct_init softmax zero_gen ([] :: real Butterfly list) None True ''relu'' =
     Inr \<lparr>factors = [], n_terms = 0, fixed_order = True, logit = None, softmax_fn = None\<rparr>"
  by (simp add: MatrixProduct_init_def)

subsection \<open>Construction of a ButterflyProduct\<close>

declare ilog2.simps [simp del]

lemma ilog2_pow: "ilog2 (2 ^ m) = m"
proof (induction m)
  case 0
  show ?case by (simp add: ilog2.simps)
next
  case (Suc m)
  have "\<not> (2::nat) ^ Suc m < 2" by simp
  then show ?case using Suc by (subst ilog2.simps) simp
qed

lemma mapE_Inr_map: "(\<And>x. x \<in> set xs \<Longrightarrow> f x = Inr (g x)) \<Longrightarrow> mapE f xs = Inr (map g xs)"
  by (induction xs) auto

lemma Butterfly_init_random:
  "k < n \<Longrightarrow> 0 \<le> n \<Longrightarrow> Butterfly_init g n k None None None =
     Inr \<lparr>bsize = n, diagonal = k, diag = map (g 0) [0..<nat n],
          subdiag = map (g 1) [0..<nat (n - k)], superdiag = map (g 2) [0..<nat (n - k)]\<rparr>"
  by (simp add: Butterfly_init_def init_param_def randn_def)

lemma factors_built:
  "mapE (\<lambda>i. Butterfly_init (gf i) (2 ^ m) (2 ^ i) None None None) (rev [0..<m]) =
     Inr (map (\<lambda>i. random_factor (gf i) (2 ^ m) (2 ^ i)) (rev [0..<m]))"
  by (rule mapE_Inr_map) (simp add: Butterfly_init_random random_factor_def)

lemma pow2_int_inj: "(2::int) ^ a = 2 ^ b \<Longrightarrow> a = b"
  by simp

lemma MatrixProduct_init_fields:
  "MatrixProduct_init sp g fs nt fo sf = Inr mp \<Longrightarrow>
     factors mp = fs \<and> n_terms mp = (case nt of None \<Rightarrow> int (length fs) | Some t \<Rightarrow> t)"
  by (auto simp: MatrixProduct_init_def Let_def bindE_eq_Inr split: if_splits)

lemma BP_init_pow2:
  "ButterflyProduct_init sp gf gl gp (2 ^ m) nt fo lp sf =
     bindE (MatrixProduct_init sp gl (map (\<lambda>i. random_factor (gf i) (2 ^ m) (2 ^ i)) (rev [0..<m])) nt fo sf) (\<lambda>mp.
             bindE (if lp then bindE (randn2 gp (2 ^ m) (2 ^ m)) (\<lambda>pl. Inr (Some pl))
                    else Inr None) (\<lambda>pl.
               Inr \<lparr>factors = factors mp, n_terms = n_terms mp, fixed_order = fixed_order mp,
                    logit = logit mp, softmax_fn = softmax_fn mp,
                    learn_perm = lp, perm_logit = pl\<rparr>))"
proof -
  have "nat ((2::int) ^ m) = (2::nat) ^ m" by (simp add: nat_power_eq)
  then have "ilog2 (nat ((2::int) ^ m)) = m" by (simp only: ilog2_pow)
  then show ?thesis
    by (simp add: ButterflyProduct_init_def Let_def factors_built)
qed

lemma BP_init_not_pow2:
  assumes "\<nexists>m. n = 2 ^ m"
  shows "ButterflyProduct_init sp gf gl gp n nt fo lp sf =
     Inl (if n \<le> 0 then ValueError else AssertionError ''size must be a power of 2'')"
  using assms by (auto simp: ButterflyProduct_init_def Let_def)

text \<open>
  C4 (as amended). A size that is not a power of two raises (a \<open>ValueError\<close> of
  \<open>math.log2\<close> when \<open>size \<le> 0\<close>, the assertion otherwise). When the construction
  succeeds, \<open>size = 2 ^ m\<close>, there are exactly \<open>m\<close> factors, all of this size, with
  the offsets \<open>2 ^ (m - 1), ..., 2 ^ 0\<close> in this order, and the term count is \<open>m\<close> when
  \<open>n_terms\<close> is not given and the given \<open>n_terms\<close> otherwise. For a power of two the
  construction succeeds in fixed-order mode, and in learned-order mode when the name
  of the selection function is known and a given \<open>n_terms\<close> is not negative.
\<close>

theorem ButterflyProduct_init_factors:
  "(ButterflyProduct_init sp gf gl gp n nt fo lp sf = Inr bp \<longrightarrow>
      (\<exists>m. n = 2 ^ m \<and> length (factors bp) = m
         \<and> map diagonal (factors bp) = map (\<lambda>i. 2 ^ i) (rev [0..<m])
         \<and> (\<forall>F \<in> set (factors bp). bsize F = n)
         \<and> n_terms bp = (case nt of None \<Rightarrow> int m | Some t \<Rightarrow> t)))
   \<and> ((\<nexists>m. n = 2 ^ m) \<longrightarrow>
        ButterflyProduct_init sp gf gl gp n nt fo lp sf =
          Inl (if n \<le> 0 then ValueError else AssertionError ''size must be a power of 2''))
   \<and> ((\<exists>m. n = 2 ^ m) \<and> (fo \<or> sf \<in> {''softmax'', ''sparsemax''} \<and> (case nt of None \<Rightarrow> True | Some t \<Rightarrow> 0 \<le> t)) \<longrightarrow>
        (\<exists>bp. ButterflyProduct_init sp gf gl gp n nt fo lp sf = Inr bp))"
proof (intro conjI impI)
  assume ok: "ButterflyProduct_init sp gf gl gp n nt fo lp sf = Inr bp"
  have "\<exists>m. n = 2 ^ m"
  proof (rule ccontr)
    assume "\<not> ?thesis"
    then show False using BP_init_not_pow2[of n sp gf gl gp nt fo lp sf] ok by simp
  qed
  then obtain m where n: "n = 2 ^ m" ..
  from ok[unfolded n BP_init_pow2] obtain mp pl where
    mp: "MatrixProduct_init sp gl (map (\<lambda>i. random_factor (gf i) (2 ^ m) (2 ^ i)) (rev [0..<m])) nt fo sf = Inr mp"
    and bp: "bp = \<lparr>factors = factors mp, n_terms = n_terms mp, fixed_order = fixed_order mp,
                    logit = logit mp, softmax_fn = softmax_fn mp,
                    learn_perm = lp, perm_logit = pl\<rparr>"
    by (auto simp: bindE_eq_Inr)
  from MatrixProduct_init_fields[OF mp] bp
  have f: "factors bp = map (\<lambda>i. random_factor (gf i) (2 ^ m) (2 ^ i)) (rev [0..<m])"
    and t: "n_terms bp = (case nt of None \<Rightarrow> int m | Some t \<Rightarrow> t)"
    by (auto split: option.splits)
  show "\<exists>m. n = 2 ^ m \<and> length (factors bp) = m
         \<and> map diagonal (factors bp) = map (\<lambda>i. 2 ^ i) (rev [0..<m])
         \<and> (\<forall>F \<in> set (factors bp). bsize F = n)
         \<and> n_terms bp = (case nt of None \<Rightarrow> int m | Some t \<Rightarrow> t)"
    using n f t by (intro exI[of _ m]) (auto simp: random_factor_def comp_def)
next
  assume "\<nexists>m. n = 2 ^ m"
  then show "ButterflyProduct_init sp gf gl gp n nt fo lp sf =
          Inl (if n \<le> 0 then ValueError else AssertionError ''size must be a power of 2'')"
    by (rule BP_init_not_pow2)
next
  assume a: "(\<exists>m. n = 2 ^ m) \<and> (fo \<or> sf \<in> {''softmax'', ''sparsemax''} \<and> (case nt of None \<Rightarrow> True | Some t \<Rightarrow> 0 \<le> t))"
  then obtain m where n: "n = 2 ^ m" by blast
  from a show "\<exists>bp. ButterflyProduct_init sp gf gl gp n nt fo lp sf = Inr bp"
    unfolding n BP_init_pow2
    by (auto simp: MatrixProduct_init_def randn2_def Let_def split: option.splits)
qed

theorem ButterflyProduct_init_factors_witness:
  "\<exists>bp. ButterflyProduct_init softmax zero_gen3 zero_gen zero_gen 4 None False False ''softmax''
          = Inr bp
        \<and> map diagonal (factors bp) = [2, 1] \<and> n_terms bp = 2"
proof -
  let ?init = "ButterflyProduct_init softmax zero_gen3 zero_gen zero_gen 4 None False False
                 ''softmax''"
  note inst = ButterflyProduct_init_factors
    [of softmax zero_gen3 zero_gen zero_gen 4 None False False "''softmax''"]
  note c1 = conjunct1 [OF inst]
  note c3 = conjunct2 [OF conjunct2 [OF inst]]
  have four: "(4::int) = 2 ^ 2" by simp
  then have ex: "\<exists>m. (4::int) = 2 ^ m" by (rule exI)
  have "\<exists>bp. ?init = Inr bp"
    by (rule mp [OF c3]) (insert ex, simp)
  then obtain bp where bp: "?init = Inr bp" ..
  from mp [OF c1 bp] obtain m where m: "(4::int) = 2 ^ m"
    "map diagonal (factors bp) = map (\<lambda>i. 2 ^ i) (rev [0..<m])"
    "n_terms bp = (case None of None \<Rightarrow> int m | Some t \<Rightarrow> t)"
    by blast
  have "(2::int) ^ m = 2 ^ 2"
    using m(1) [symmetric] by (simp only: four [symmetric])
  then have m2: "m = 2" by (rule pow2_int_inj)
  have r: "rev [0..<2] = [1, 0::nat]" by (simp add: upt_rec)
  have d: "map diagonal (factors bp) = [2, 1]"
    using m(2) unfolding m2 r by simp
  have t: "n_terms bp = 2"
    using m(3) unfolding m2 by simp
  show ?thesis by (rule exI [of _ bp]) (simp only: bp d t simp_thms)
qed

text \<open>
  C4 (as stated) fails on the term count: \<open>ButterflyProduct(4, n_terms=3,
  fixed_order=True)\<close> has \<open>log2 4 = 2\<close> factors and the term count 3.
\<close>

theorem ButterflyProduct_init_explicit_n_terms:
  "bindE (ButterflyProduct_init softmax zero_gen3 zero_gen zero_gen 4 (Some 3) True False
            ''softmax'')
     (\<lambda>bp. Inr (map diagonal (factors bp), n_terms bp)) = Inr ([2, 1], 3)"
proof -
  have r: "rev [0..<2] = [1, 0::nat]" by (simp add: upt_rec)
  have "ButterflyProduct_init softmax zero_gen3 zero_gen zero_gen (2 ^ 2) (Some 3) True False
            ''softmax'' = Inr \<lparr>factors = map (\<lambda>i. random_factor (zero_gen3 i) (2 ^ 2) (2 ^ i)) [1, 0],
       n_terms = 3, fixed_order = True, logit = None, softmax_fn = None, learn_perm = False,
       perm_logit = None\<rparr>"
    unfolding BP_init_pow2 r by (simp add: MatrixProduct_init_def)
  then show ?thesis by (simp add: random_factor_def)
qed

subsection \<open>sinkhorn\<close>


lemma sinkhorn_run:
  "length L = ncols L \<Longrightarrow>
   sinkhorn ar L n_iters =
     Inr (sinkhorn_loop ar (nat n_iters) L, map (map (exp_op ar)) (sinkhorn_loop ar (nat n_iters) L))"
  by (simp add: sinkhorn_def Let_def)





subsection \<open>A factor applied directly and as a matrix\<close>

text \<open>Every factor that the constructor builds with a positive offset is valid.\<close>

lemma Butterfly_init_valid:
  assumes "Butterfly_init g n k d sb sp = Inr B" "0 < k"
  shows "valid_factor B"
  using assms
  by (auto simp: Butterfly_init_def bindE_eq_Inr valid_factor_def split: if_splits
      dest: init_param_length)

lemma bzip_same: "length xs = length ys \<Longrightarrow> bzip f xs ys = Inr (map2 f xs ys)"
  by (simp add: bzip_def bdim_def expand_def)

lemma badd2_same:
  assumes "length A = length B" "\<And>i. i < length A \<Longrightarrow> length (A ! i) = length (B ! i)"
  shows "badd2 A B = Inr (map2 (map2 (+)) A B)"
proof -
  have "mapE (\<lambda>(a, b). bzip (+) a b) (zip A B) = Inr (map (\<lambda>(a, b). map2 (+) a b) (zip A B))"
  proof (rule mapE_Inr_map)
    fix p assume "p \<in> set (zip A B)"
    then obtain i where "i < length A" "p = (A ! i, B ! i)"
      using assms(1) by (auto simp: in_set_zip)
    then show "(case p of (a, b) \<Rightarrow> bzip (+) a b) = Inr (case p of (a, b) \<Rightarrow> map2 (+) a b)"
      using assms(2) by (simp add: bzip_same)
  qed
  then show ?thesis using assms(1) by (simp add: badd2_def bdim_def expand_def)
qed

lemma length_torch_diag [simp]: "length (torch_diag v off) = length v + nat \<bar>off\<bar>"
  by (simp add: torch_diag_def Let_def)

lemma length_torch_diag_row [simp]:
  "i < length v + nat \<bar>off\<bar> \<Longrightarrow> length (torch_diag v off ! i) = length v + nat \<bar>off\<bar>"
  by (simp add: torch_diag_def Let_def)

lemma torch_diag_nth:
  "i < length v + nat \<bar>off\<bar> \<Longrightarrow> j < length v + nat \<bar>off\<bar> \<Longrightarrow>
   torch_diag v off ! i ! j = (if int j - int i = off then v ! (min i j) else 0)"
  by (simp add: torch_diag_def Let_def)

lemma sum_of_diags:
  fixes d :: "'a::monoid_add list"
  assumes "0 < k" "k < n" "length d = n" "length sb = n - k" "length sp = n - k"
  shows "bindE (badd2 (torch_diag d 0) (torch_diag sb (- int k))) (\<lambda>s.
           badd2 s (torch_diag sp (int k))) = Inr (band_matrix d sb sp k n)"
proof -
  have 1: "badd2 (torch_diag d 0) (torch_diag sb (- int k))
             = Inr (map2 (map2 (+)) (torch_diag d 0) (torch_diag sb (- int k)))"
    using assms by (intro badd2_same) simp_all
  let ?s = "map2 (map2 (+)) (torch_diag d 0) (torch_diag sb (- int k))"
  have 2: "badd2 ?s (torch_diag sp (int k)) = Inr (map2 (map2 (+)) ?s (torch_diag sp (int k)))"
    using assms by (intro badd2_same) simp_all
  have 3: "map2 (map2 (+)) ?s (torch_diag sp (int k)) = band_matrix d sb sp k n"
  proof (rule nth_equalityI)
    show "length (map2 (map2 (+)) ?s (torch_diag sp (int k))) = length (band_matrix d sb sp k n)"
      using assms by (simp add: band_matrix_def)
  next
    fix i assume "i < length (map2 (map2 (+)) ?s (torch_diag sp (int k)))"
    then have i: "i < n" using assms by simp
    show "map2 (map2 (+)) ?s (torch_diag sp (int k)) ! i = band_matrix d sb sp k n ! i"
    proof (rule nth_equalityI)
      show "length (map2 (map2 (+)) ?s (torch_diag sp (int k)) ! i) = length (band_matrix d sb sp k n ! i)"
        using assms i by (simp add: band_matrix_def)
    next
      fix j assume "j < length (map2 (map2 (+)) ?s (torch_diag sp (int k)) ! i)"
      then have j: "j < n" using assms i by simp
      have m1: "j + k = i \<Longrightarrow> min i j = j" and m2: "j = i + k \<Longrightarrow> min i j = i" by auto
      show "map2 (map2 (+)) ?s (torch_diag sp (int k)) ! i ! j = band_matrix d sb sp k n ! i ! j"
        using assms i j by (auto simp: band_matrix_def torch_diag_nth m1 m2)
    qed
  qed
  show ?thesis by (simp add: 1 2 3)
qed

lemma dot_sum:
  fixes xs :: "'a::comm_semiring_0 list"
  assumes "length xs = n" "length ys = n"
  shows "dot (*) xs ys = (\<Sum>j<n. xs ! j * ys ! j)"
proof -
  have "sum_list (map2 (*) xs ys) = (\<Sum>j = 0..<length (map2 (*) xs ys). map2 (*) xs ys ! j)"
    by (rule sum_list_sum_nth)
  also have "\<dots> = (\<Sum>j<n. xs ! j * ys ! j)"
    using assms by (simp add: atLeast0LessThan)
  finally show ?thesis by (simp add: dot_def)
qed

lemma dot_band_row:
  fixes x :: "'a::comm_semiring_0 list"
  assumes "length x = n" "i < n"
  shows "dot (*) x (band_matrix d sb sp k n ! i) =
           d ! i * x ! i + (if k \<le> i then sb ! (i - k) * x ! (i - k) else 0)
             + (if i + k < n then sp ! i * x ! (i + k) else 0)"
proof -
  have len: "length (band_matrix d sb sp k n ! i) = n"
    using assms by (simp add: band_matrix_def)
  have "dot (*) x (band_matrix d sb sp k n ! i) =
          (\<Sum>j<n. x ! j * ((if j = i then d ! i else 0) + (if j + k = i then sb ! j else 0)
                         + (if j = i + k then sp ! i else 0)))"
    unfolding dot_sum[OF assms(1) len] using assms(2)
    by (intro sum.cong) (simp_all add: band_matrix_def)
  also have "\<dots> = (\<Sum>j<n. (if j = i then x ! j * d ! i else 0))
                  + (\<Sum>j<n. (if j = i - k \<and> k \<le> i then x ! j * sb ! j else 0))
                  + (\<Sum>j<n. (if j = i + k then x ! j * sp ! i else 0))"
    unfolding sum.distrib[symmetric]
    by (intro sum.cong refl) (auto simp: distrib_left)
  also have "(\<Sum>j<n. (if j = i then x ! j * d ! i else 0)) = d ! i * x ! i"
    using assms(2) by (simp add: mult.commute)
  also have "(\<Sum>j<n. (if j = i - k \<and> k \<le> i then x ! j * sb ! j else 0))
               = (if k \<le> i then sb ! (i - k) * x ! (i - k) else 0)"
  proof (cases "k \<le> i")
    case True
    then have "(\<Sum>j<n. (if j = i - k \<and> k \<le> i then x ! j * sb ! j else 0))
                 = (\<Sum>j<n. (if j = i - k then x ! j * sb ! j else 0))" by simp
    also have "\<dots> = x ! (i - k) * sb ! (i - k)"
    proof -
      have "i - k < n" using assms(2) by arith
      then show ?thesis by simp
    qed
    finally show ?thesis using True by (simp add: mult.commute)
  next
    case False
    then show ?thesis by simp
  qed
  also have "(\<Sum>j<n. (if j = i + k then x ! j * sp ! i else 0))
               = (if i + k < n then sp ! i * x ! (i + k) else 0)"
    by (simp add: mult.commute)
  finally show ?thesis .
qed

lemma py_bound_pos: "k \<le> n \<Longrightarrow> py_bound (int k) n = k"
  by (simp add: py_bound_def)

lemma py_bound_neg: "0 < k \<Longrightarrow> k \<le> n \<Longrightarrow> py_bound (- int k) n = n - k"
  by (simp add: py_bound_def)

lemma iadd_same: "length rhs = length tgt \<Longrightarrow> iadd tgt rhs = Inr (map2 (+) tgt rhs)"
  by (simp add: iadd_def)

lemma slice_to_neg: "0 < k \<Longrightarrow> k < n \<Longrightarrow> length x = n \<Longrightarrow> slice_to (- int k) x = take (n - k) x"
  by (simp add: slice_to_def py_bound_neg)

lemma slice_from_pos: "0 < k \<Longrightarrow> k < n \<Longrightarrow> length x = n \<Longrightarrow> slice_from (int k) x = drop k x"
  by (simp add: slice_from_def py_bound_pos)

lemma iadd_from_same: "0 < k \<Longrightarrow> k < n \<Longrightarrow> length out = n \<Longrightarrow> length r1 = n - k \<Longrightarrow>
  iadd_from (int k) out r1 = Inr (take k out @ map2 (+) (drop k out) r1)"
  by (simp add: iadd_from_def slice_from_def py_bound_pos iadd_same)

lemma iadd_to_same: "0 < k \<Longrightarrow> k < n \<Longrightarrow> length out1 = n \<Longrightarrow> length r2 = n - k \<Longrightarrow>
  iadd_to (- int k) out1 r2 = Inr (map2 (+) (take (n - k) out1) r2 @ drop (n - k) out1)"
  by (simp add: iadd_to_def slice_to_def py_bound_neg iadd_same)

lemma forward_row_explicit:
  fixes d :: "'a::comm_semiring_0 list"
  assumes k: "0 < k" "k < n" and len: "length d = n" "length sb = n - k" "length sp = n - k"
    "length x = n"
  shows "bindE (bzip (*) d x) (\<lambda>out.
         bindE (bzip (*) sb (slice_to (- int k) x)) (\<lambda>r1.
         bindE (iadd_from (int k) out r1) (\<lambda>out1.
         bindE (bzip (*) sp (slice_from (int k) x)) (\<lambda>r2.
           iadd_to (- int k) out1 r2))))
       = Inr (map (\<lambda>i. dot (*) x (band_matrix d sb sp k n ! i)) [0..<n])"
proof -
  define out where "out = map2 (*) d x"
  define r1 where "r1 = map2 (*) sb (take (n - k) x)"
  define out1 where "out1 = take k out @ map2 (+) (drop k out) r1"
  define r2 where "r2 = map2 (*) sp (drop k x)"
  define res where "res = map2 (+) (take (n - k) out1) r2 @ drop (n - k) out1"
  have lout: "length out = n" using len by (simp add: out_def)
  have lr1: "length r1 = n - k" using k len by (simp add: r1_def)
  have lout1: "length out1 = n" using k lout lr1 by (simp add: out1_def)
  have lr2: "length r2 = n - k" using k len by (simp add: r2_def)
  have lres: "length res = n" using k lout1 lr2 by (simp add: res_def)
  have nout: "out ! i = d ! i * x ! i" if "i < n" for i
    using that len by (simp add: out_def)
  have nr1: "r1 ! j = sb ! j * x ! j" if "j < n - k" for j
    using that k len by (simp add: r1_def)
  have nr2: "r2 ! j = sp ! j * x ! (j + k)" if "j < n - k" for j
    using that k len by (simp add: r2_def add.commute)
  have nout1: "out1 ! i = d ! i * x ! i + (if k \<le> i then sb ! (i - k) * x ! (i - k) else 0)"
    if i: "i < n" for i
  proof (cases "i < k")
    case True
    then have "out1 ! i = out ! i" using lout k by (simp add: out1_def nth_append)
    with True i show ?thesis by (simp add: nout)
  next
    case False
    then have ik: "i - k < n - k" "k \<le> i" using i by arith+
    have "out1 ! i = map2 (+) (drop k out) r1 ! (i - k)"
      using False lout k by (simp add: out1_def nth_append)
    also have "\<dots> = out ! i + r1 ! (i - k)"
      using ik lout lr1 by simp
    finally show ?thesis using ik i by (simp add: nout nr1)
  qed
  have nres: "res ! i = out1 ! i + (if i + k < n then sp ! i * x ! (i + k) else 0)"
    if i: "i < n" for i
  proof (cases "i < n - k")
    case True
    then have "res ! i = map2 (+) (take (n - k) out1) r2 ! i"
      using lout1 lr2 by (simp add: res_def nth_append)
    also have "\<dots> = out1 ! i + r2 ! i"
      using True lout1 lr2 by simp
    finally show ?thesis
    proof -
      assume a: "res ! i = out1 ! i + r2 ! i"
      from True have "i + k < n" by arith
      with a True show ?thesis by (simp add: nr2)
    qed
  next
    case False
    then have "res ! i = drop (n - k) out1 ! (i - (n - k))"
      using lout1 lr2 by (simp add: res_def nth_append)
    also have "\<dots> = out1 ! i" using False i lout1 by simp
    finally show ?thesis
    proof -
      assume a: "res ! i = out1 ! i"
      from False have "\<not> i + k < n" by arith
      with a show ?thesis by simp
    qed
  qed
  have eq: "res = map (\<lambda>i. dot (*) x (band_matrix d sb sp k n ! i)) [0..<n]"
  proof (rule nth_equalityI)
    show "length res = length (map (\<lambda>i. dot (*) x (band_matrix d sb sp k n ! i)) [0..<n])"
      using lres by simp
  next
    fix i assume "i < length res"
    then have i: "i < n" using lres by simp
    have "dot (*) x (band_matrix d sb sp k n ! i) = res ! i"
      unfolding dot_band_row[OF len(4) i] nres[OF i] nout1[OF i] ..
    then show "res ! i = map (\<lambda>i. dot (*) x (band_matrix d sb sp k n ! i)) [0..<n] ! i"
      using i by simp
  qed
  have e1: "bzip (*) d x = Inr out" using len by (simp add: bzip_same out_def)
  have e2: "bzip (*) sb (slice_to (- int k) x) = Inr r1"
    using k len by (simp add: slice_to_neg r1_def bzip_same)
  have e3: "iadd_from (int k) out r1 = Inr out1"
    unfolding out1_def using k lout lr1 by (rule iadd_from_same)
  have e4: "bzip (*) sp (slice_from (int k) x) = Inr r2"
    using k len by (simp add: slice_from_pos r2_def bzip_same)
  have e5: "iadd_to (- int k) out1 r2 = Inr res"
    unfolding res_def using k lout1 lr2 by (rule iadd_to_same)
  show ?thesis
    by (simp only: e1 e2 e3 e4 e5 bindE_Inr eq)
qed

lemma complex_mul_times: "complex_mul = (*)"
  by (intro ext) (simp add: complex_mul_def complex_eq_iff)

lemma diag_embed_torch_diag: "diag_embed (t_pair v) off = torch_diag v off"
proof -
  let ?n = "length v + nat \<bar>off\<bar>"
  have "map2 (map2 Complex) (torch_diag (map Re v) off) (torch_diag (map Im v) off)
          = torch_diag v off"
  proof (rule nth_equalityI)
    show "length (map2 (map2 Complex) (torch_diag (map Re v) off) (torch_diag (map Im v) off))
            = length (torch_diag v off)" by simp
  next
    fix i assume "i < length (map2 (map2 Complex) (torch_diag (map Re v) off) (torch_diag (map Im v) off))"
    then have i: "i < ?n" by simp
    show "map2 (map2 Complex) (torch_diag (map Re v) off) (torch_diag (map Im v) off) ! i
            = torch_diag v off ! i"
    proof (rule nth_equalityI)
      show "length (map2 (map2 Complex) (torch_diag (map Re v) off) (torch_diag (map Im v) off) ! i)
              = length (torch_diag v off ! i)" using i by simp
    next
      fix j assume "j < length (map2 (map2 Complex) (torch_diag (map Re v) off) (torch_diag (map Im v) off) ! i)"
      then have j: "j < ?n" using i by simp
      have m: "int j - int i = off \<Longrightarrow> min i j < length v" using i j by auto
      show "map2 (map2 Complex) (torch_diag (map Re v) off) (torch_diag (map Im v) off) ! i ! j
              = torch_diag v off ! i ! j"
        using i j m by (auto simp: torch_diag_nth complex_eq_iff)
    qed
  qed
  then show ?thesis by (simp add: diag_embed_def t_pair_def)
qed

lemma length_band_matrix [simp]: "length (band_matrix d sb sp k n) = n"
  by (simp add: band_matrix_def)

lemma length_band_matrix_row [simp]: "i < n \<Longrightarrow> length (band_matrix d sb sp k n ! i) = n"
  by (simp add: band_matrix_def)

lemma matmul_t_mat:
  fixes M :: "'a::comm_semiring_0 list list"
  assumes n: "0 < n" "length M = n" "\<And>i. i < n \<Longrightarrow> length (M ! i) = n"
    and X: "\<And>x. x \<in> set X \<Longrightarrow> length x = n"
  shows "matmul (*) X (t_mat M) = Inr (map (\<lambda>x. map (\<lambda>i. dot (*) x (M ! i)) [0..<n]) X)"
proof -
  have nc: "ncols M = n"
  proof (cases M)
    case Nil
    then show ?thesis using n by simp
  next
    case (Cons a list)
    then have "length a = n" using n(3)[of 0] n(1) by simp
    then show ?thesis using Cons by (simp add: ncols_def)
  qed
  have lt: "length (t_mat M) = n" by (simp add: t_mat_def nc)
  have "t_mat M \<noteq> []" using lt n(1) by auto
  then have nct: "ncols (t_mat M) = n"
    using n by (cases "t_mat M") (auto simp: ncols_def t_mat_def nc col_def upt_conv_Cons)
  have colt: "col i (t_mat M) = M ! i" if "i < n" for i
  proof (rule nth_equalityI)
    show "length (col i (t_mat M)) = length (M ! i)"
      using that n lt by (simp add: col_def)
  next
    fix j assume "j < length (col i (t_mat M))"
    then have "j < n" using lt by (simp add: col_def)
    then show "col i (t_mat M) ! j = M ! i ! j"
      using that n by (simp add: col_def t_mat_def nc)
  qed
  have ok: "\<not> (X \<noteq> [] \<and> ncols X \<noteq> length (t_mat M))"
    using X lt by (cases X) (auto simp: ncols_def)
  have "map (\<lambda>r. map (\<lambda>j. dot (*) r (col j (t_mat M))) [0..<ncols (t_mat M)]) X
          = map (\<lambda>x. map (\<lambda>i. dot (*) x (M ! i)) [0..<n]) X"
    unfolding nct by (intro map_cong refl) (simp add: colt)
  with ok show ?thesis unfolding matmul_def by (simp only: if_False)
qed

lemma valid_factor_nat:
  assumes "valid_factor B"
  obtains n k where "bsize B = int n" "diagonal B = int k" "0 < k" "k < n"
    "length (diag B) = n" "length (subdiag B) = n - k" "length (superdiag B) = n - k"
proof -
  from assms have a: "0 < diagonal B" "diagonal B < bsize B" "int (length (diag B)) = bsize B"
    "int (length (subdiag B)) = bsize B - diagonal B"
    "int (length (superdiag B)) = bsize B - diagonal B"
    by (simp_all add: valid_factor_def)
  show ?thesis
  proof (rule that[of "nat (bsize B)" "nat (diagonal B)"])
    show "bsize B = int (nat (bsize B))" using a by simp
    show "diagonal B = int (nat (diagonal B))" using a by simp
    show "0 < nat (diagonal B)" using a by simp
    show "nat (diagonal B) < nat (bsize B)" using a by simp
    show "length (diag B) = nat (bsize B)" using a by simp
    show "length (subdiag B) = nat (bsize B) - nat (diagonal B)" using a by arith
    show "length (superdiag B) = nat (bsize B) - nat (diagonal B)" using a by arith
  qed
qed

lemma forward_is_matmul_generic:
  fixes B :: "'a::comm_semiring_0 Butterfly"
  assumes V: "mul_op V = (*)" "diag_matrix V = torch_diag"
    and B: "valid_factor B" and X: "\<forall>x \<in> set X. int (length x) = bsize B"
  shows "\<exists>M Y. Butterfly_matrix V B = Inr M \<and> Butterfly_forward V B X = Inr Y
           \<and> matmul (*) X (t_mat M) = Inr Y"
proof -
  from B obtain n k where nk: "bsize B = int n" "diagonal B = int k" "0 < k" "k < n"
    "length (diag B) = n" "length (subdiag B) = n - k" "length (superdiag B) = n - k"
    by (rule valid_factor_nat)
  let ?M = "band_matrix (diag B) (subdiag B) (superdiag B) k n"
  let ?Y = "map (\<lambda>x. map (\<lambda>i. dot (*) x (?M ! i)) [0..<n]) X"
  have lx: "length x = n" if "x \<in> set X" for x using X that nk(1) by simp
  have m: "Butterfly_matrix V B = Inr ?M"
    unfolding Butterfly_matrix_def V nk(2)
    by (rule sum_of_diags) (use nk in simp_all)
  have row: "forward_row V B x = Inr (map (\<lambda>i. dot (*) x (?M ! i)) [0..<n])"
    if "x \<in> set X" for x
    unfolding forward_row_def V nk(2)
    by (rule forward_row_explicit) (use nk lx[OF that] in simp_all)
  have f: "Butterfly_forward V B X = Inr ?Y"
    unfolding Butterfly_forward_def by (rule mapE_Inr_map) (rule row)
  have mm: "matmul (*) X (t_mat ?M) = Inr ?Y"
    by (rule matmul_t_mat) (use nk lx in simp_all)
  from m f mm show ?thesis by blast
qed

text \<open>
  C1. For every Butterfly factor with \<open>0 < k < n\<close> (parameters of lengths \<open>n\<close>,
  \<open>n - k\<close>, \<open>n - k\<close>), real or complex, and every batch of inputs of length \<open>n\<close>,
  \<open>matrix()\<close> and \<open>forward(x)\<close> succeed and \<open>forward(x)\<close> is
  \<open>x @ matrix().t()\<close>, in the complex case
  \<open>complex_matmul(x, matrix().transpose(0, 1))\<close>. The floats are read as real
  numbers: the two sides are equal there, and differ by rounding only in the floats.
\<close>

theorem Butterfly_forward_is_matmul:
  assumes "valid_factor Br" "\<forall>x \<in> set Xr. int (length x) = bsize Br"
    and "valid_factor Bc" "\<forall>x \<in> set Xc. int (length x) = bsize Bc"
  shows "(\<exists>M Y. Butterfly_matrix real_variant Br = Inr M
            \<and> Butterfly_forward real_variant Br Xr = Inr Y
            \<and> matmul (*) Xr (t_mat M) = Inr Y)
       \<and> (\<exists>M Y. Butterfly_matrix complex_variant Bc = Inr M
            \<and> Butterfly_forward complex_variant Bc Xc = Inr Y
            \<and> complex_matmul Xc (t_mat M) = Inr Y)"
proof
  show "\<exists>M Y. Butterfly_matrix real_variant Br = Inr M
            \<and> Butterfly_forward real_variant Br Xr = Inr Y
            \<and> matmul (*) Xr (t_mat M) = Inr Y"
    using assms(1,2) by (intro forward_is_matmul_generic) (simp_all add: real_variant_def)
next
  have cm: "complex_matmul = matmul (*)"
    by (intro ext) (simp add: complex_matmul_def complex_mul_times)
  have "diag_matrix complex_variant = torch_diag"
    by (intro ext) (simp add: complex_variant_def diag_embed_torch_diag)
  then show "\<exists>M Y. Butterfly_matrix complex_variant Bc = Inr M
            \<and> Butterfly_forward complex_variant Bc Xc = Inr Y
            \<and> complex_matmul Xc (t_mat M) = Inr Y"
    unfolding cm using assms(3,4)
    by (intro forward_is_matmul_generic) (simp_all add: complex_variant_def complex_mul_times)
qed

theorem Butterfly_forward_is_matmul_witness:
  "valid_factor sample_factor
   \<and> int (length [5, 6 :: real]) = bsize sample_factor
   \<and> valid_factor test_factor
   \<and> int (length [1, 2, 3, Complex 0 1]) = bsize test_factor
   \<and> (\<exists>M Y. Butterfly_matrix real_variant sample_factor = Inr M
          \<and> Butterfly_forward real_variant sample_factor [[5, 6]] = Inr Y
          \<and> matmul (*) [[5, 6]] (t_mat M) = Inr Y)
   \<and> (\<exists>M Y. Butterfly_matrix complex_variant test_factor = Inr M
          \<and> Butterfly_forward complex_variant test_factor [[1, 2, 3, Complex 0 1]] = Inr Y
          \<and> complex_matmul [[1, 2, 3, Complex 0 1]] (t_mat M) = Inr Y)"
proof -
  have h1: "valid_factor sample_factor"
    by (simp add: valid_factor_def sample_factor_def)
  have h2: "\<forall>x \<in> set [[5, 6 :: real]]. int (length x) = bsize sample_factor"
    by (simp add: sample_factor_def)
  have h3: "valid_factor test_factor"
    by (simp add: valid_factor_def test_factor_def test_diag_def test_subdiag_def)
  have h4: "\<forall>x \<in> set [[1, 2, 3, Complex 0 1]]. int (length x) = bsize test_factor"
    by (simp add: test_factor_def)
  note r = Butterfly_forward_is_matmul [OF h1 h2 h3 h4]
  have l1: "int (length [5, 6 :: real]) = bsize sample_factor"
    by (simp add: sample_factor_def)
  have l2: "int (length [1, 2, 3, Complex 0 1]) = bsize test_factor"
    by (simp add: test_factor_def)
  show ?thesis
    by (intro conjI h1 l1 h3 l2 conjunct1 [OF r] conjunct2 [OF r])
qed

subsection \<open>The matrix of a ButterflyProduct with a learned permutation\<close>

lemma Butterfly_matrix_band:
  fixes B :: "'a::monoid_add Butterfly"
  assumes "diag_matrix V = torch_diag" "valid_factor B"
  shows "Butterfly_matrix V B = Inr (factor_matrix B)"
proof -
  from assms(2) obtain n k where nk: "bsize B = int n" "diagonal B = int k" "0 < k" "k < n"
    "length (diag B) = n" "length (subdiag B) = n - k" "length (superdiag B) = n - k"
    by (rule valid_factor_nat)
  show ?thesis
    unfolding Butterfly_matrix_def assms(1) factor_matrix_def nk(1,2) nat_int
    by (rule sum_of_diags) (use nk in simp_all)
qed

lemma length_factor_matrix [simp]: "length (factor_matrix B) = nat (bsize B)"
  by (simp add: factor_matrix_def)

lemma length_factor_matrix_row [simp]:
  "i < nat (bsize B) \<Longrightarrow> length (factor_matrix B ! i) = nat (bsize B)"
  by (simp add: factor_matrix_def)

lemma ncols_rows:
  assumes "0 < length M" "\<And>i. i < length M \<Longrightarrow> length (M ! i) = c"
  shows "ncols M = c"
proof (cases M)
  case Nil
  then show ?thesis using assms(1) by simp
next
  case (Cons a list)
  then have "length a = c" using assms(2)[of 0] by simp
  then show ?thesis using Cons by (simp add: ncols_def)
qed

lemma matmul_square:
  assumes "0 < n" "length A = n" "\<And>i. i < n \<Longrightarrow> length (A ! i) = n"
    "length B = n" "\<And>i. i < n \<Longrightarrow> length (B ! i) = n"
  shows "matmul mul A B = Inr (map (\<lambda>r. map (\<lambda>j. dot mul r (col j B)) [0..<n]) A)"
proof -
  have a: "ncols A = n" using assms(1,2,3) by (intro ncols_rows) simp_all
  have b: "ncols B = n" using assms(1,4,5) by (intro ncols_rows) simp_all
  show ?thesis by (simp add: matmul_def a b assms(4))
qed

lemma length_sinkhorn_step [simp]: "length (sinkhorn_step ar L) = length L"
  by (simp add: sinkhorn_step_def sub_rows_def sub_cols_def)

lemma length_sinkhorn_loop [simp]: "length (sinkhorn_loop ar k L) = length L"
  by (induction k arbitrary: L) simp_all

lemma perm_of_length:
  assumes "perm_of ar bp t = Inr P" "perm_logit bp = Some pl"
  shows "length P = length pl"
  using assms
  by (auto simp: perm_of_def sinkhorn_def Let_def bindE_eq_Inr split: if_splits)

lemma matmul_batched_fails: "length P \<noteq> 2 \<Longrightarrow> matmul_batched A P = Inl RuntimeError"
  by (simp add: matmul_batched_def)

lemma BP_matrix_complex_fails:
  assumes "learn_perm bp" "perm_logit bp = Some pl" "length pl \<noteq> 2"
  shows "\<exists>e. ButterflyProduct_matrix complex_variant ar bp t = Inl e"
proof (cases "MatrixProduct_matrix complex_variant bp t")
  case (Inl e)
  then show ?thesis by (simp add: ButterflyProduct_matrix_def)
next
  case (Inr M)
  show ?thesis
  proof (cases "perm_of ar bp t")
    case (Inl e)
    then show ?thesis using Inr assms(1) by (simp add: ButterflyProduct_matrix_def)
  next
    case P: (Inr P)
    then have "length P \<noteq> 2" using perm_of_length[OF P assms(2)] assms(3) by simp
    then show ?thesis
      using Inr P assms(1)
      by (simp add: ButterflyProduct_matrix_def complex_variant_def matmul_batched_fails)
  qed
qed

lemma valid_random_factor: "0 < k \<Longrightarrow> k < n \<Longrightarrow> valid_factor (random_factor g n k)"
  by (simp add: valid_factor_def random_factor_def)

lemma bsize_random_factor [simp]: "bsize (random_factor g n k) = n"
  by (simp add: random_factor_def)

lemma test_product_init:
  "ButterflyProduct_init softmax zero_gen3_c zero_gen zero_gen 4 None True True ''softmax''
     = Inr test_product"
proof -
  have r: "rev [0..<2] = [1, 0::nat]" by (simp add: upt_rec)
  have "ButterflyProduct_init softmax zero_gen3_c zero_gen zero_gen (2 ^ 2) None True True
          ''softmax'' = Inr test_product"
    unfolding BP_init_pow2 r
    by (simp add: MatrixProduct_init_def randn2_def test_product_def)
  then show ?thesis by simp
qed

lemma bindE_Inr_id: "bindE m (\<lambda>a. Inr a) = m"
  by (cases m) simp_all

lemma test_product_matrix:
  "\<exists>M. MatrixProduct_matrix complex_variant test_product t = Inr M"
proof -
  let ?F1 = "random_factor (zero_gen3_c 1) 4 2" and ?F2 = "random_factor (zero_gen3_c 0) 4 1"
  have dm: "diag_matrix complex_variant = torch_diag"
    by (intro ext) (simp add: complex_variant_def diag_embed_torch_diag)
  have m1: "Butterfly_matrix complex_variant ?F1 = Inr (factor_matrix ?F1)"
    by (rule Butterfly_matrix_band[OF dm]) (simp add: valid_random_factor)
  have m2: "Butterfly_matrix complex_variant ?F2 = Inr (factor_matrix ?F2)"
    by (rule Butterfly_matrix_band[OF dm]) (simp add: valid_random_factor)
  have fs: "mapE (Butterfly_matrix complex_variant) [?F1, ?F2]
              = Inr [factor_matrix ?F1, factor_matrix ?F2]"
    by (simp only: mapE.simps m1 m2 sum.case)
  have mm: "matmul complex_mul (factor_matrix ?F1) (factor_matrix ?F2) =
     Inr (map (\<lambda>r. map (\<lambda>j. dot complex_mul r (col j (factor_matrix ?F2))) [0..<4])
            (factor_matrix ?F1))"
    by (rule matmul_square) simp_all
  have red: "reduce (matmul_op complex_variant) [factor_matrix ?F1, factor_matrix ?F2]
               = matmul complex_mul (factor_matrix ?F1) (factor_matrix ?F2)"
    by (simp add: reduce_def complex_variant_def complex_matmul_def bindE_Inr_id)
  have fx: "fixed_order test_product" "factors test_product = [?F1, ?F2]"
    by (simp_all add: test_product_def)
  have "MatrixProduct_matrix complex_variant test_product t
          = matmul complex_mul (factor_matrix ?F1) (factor_matrix ?F2)"
    unfolding MatrixProduct_matrix_def by (simp only: fx if_True fs bindE_Inr red)
  with mm show ?thesis by simp
qed

text \<open>
  C6: the code departs from the claim in the complex variant. \<open>ButterflyProduct.matrix\<close>
  computes \<open>matrix @ perm\<close> with the plain \<open>@\<close> of torch also when the matrix is
  complex, of shape \<open>(n, n, 2)\<close>: for the product of size 4 built with
  \<open>learn_perm=True\<close> this raises, whatever the arithmetic that computes the
  permutation, so \<open>forward(x)\<close> cannot be compared with \<open>x @ matrix().transpose()\<close>.
\<close>

theorem ButterflyProduct_matrix_complex_perm_raises:
  "ButterflyProduct_init softmax zero_gen3_c zero_gen zero_gen 4 None True True ''softmax''
     = Inr test_product
   \<and> ButterflyProduct_matrix complex_variant ar test_product 1 = Inl RuntimeError"
proof -
  obtain M where M: "MatrixProduct_matrix complex_variant test_product 1 = Inr M"
    using test_product_matrix by blast
  define pl where "pl = map (\<lambda>i. map (zero_gen i) [0..<4]) [0..<4]"
  define L where "L = map (map (\<lambda>x. div_op ar x 1)) pl"
  have sq: "length L = ncols L"
    by (simp add: L_def pl_def ncols_def upt4)
  have lL: "length L = 4" by (simp add: L_def pl_def)
  have lp: "learn_perm test_product" "perm_logit test_product = Some pl"
    by (simp_all add: test_product_def pl_def)
  have "perm_of ar test_product 1 = bindE (sinkhorn ar L 5) (\<lambda>r. Inr (snd r))"
    by (simp add: perm_of_def lp L_def)
  then have p: "perm_of ar test_product 1
      = Inr (map (map (exp_op ar)) (sinkhorn_loop ar (nat 5) L))"
    by (simp only: sinkhorn_run [OF sq] bindE_Inr snd_conv)
  have "length (map (map (exp_op ar)) (sinkhorn_loop ar (nat 5) L)) \<noteq> 2"
    by (simp add: lL)
  then have "matmul_batched M (map (map (exp_op ar)) (sinkhorn_loop ar (nat 5) L))
      = Inl RuntimeError"
    by (rule matmul_batched_fails)
  moreover have "matmul_perm complex_variant = matmul_batched"
    by (simp add: complex_variant_def)
  ultimately have
    "ButterflyProduct_matrix complex_variant ar test_product 1 = Inl RuntimeError"
    unfolding ButterflyProduct_matrix_def by (simp only: M p lp bindE_Inr if_True)
  with test_product_init show ?thesis by (intro conjI)
qed

subsection \<open>A composer over two factors\<close>

lemma map_nth_upt: "map (\<lambda>i. f (M ! i)) [0..<length M] = map f M"
  by (rule nth_equalityI) simp_all

lemma Butterfly_forward_apply:
  fixes B :: "'a::comm_semiring_0 Butterfly"
  assumes V: "mul_op V = (*)" and B: "valid_factor B"
    and X: "\<And>x. x \<in> set X \<Longrightarrow> int (length x) = bsize B"
  shows "Butterfly_forward V B X = Inr (apply_matrix (factor_matrix B) X)"
proof -
  from B obtain n k where nk: "bsize B = int n" "diagonal B = int k" "0 < k" "k < n"
    "length (diag B) = n" "length (subdiag B) = n - k" "length (superdiag B) = n - k"
    by (rule valid_factor_nat)
  let ?M = "band_matrix (diag B) (subdiag B) (superdiag B) k n"
  have fm: "factor_matrix B = ?M" by (simp add: factor_matrix_def nk)
  have lx: "length x = n" if "x \<in> set X" for x using X[OF that] nk(1) by simp
  have "map (\<lambda>i. dot (*) x (?M ! i)) [0..<n] = map (dot (*) x) ?M" for x :: "'a list"
    using map_nth_upt[of "dot (*) x" ?M] by simp
  then have row: "forward_row V B x = Inr (map (dot (*) x) (factor_matrix B))"
    if "x \<in> set X" for x
    unfolding forward_row_def V nk(2) fm
    using forward_row_explicit[OF nk(3,4,5,6,7) lx[OF that]] by simp
  show ?thesis
    unfolding Butterfly_forward_def apply_matrix_def by (rule mapE_Inr_map) (rule row)
qed

lemma matmul_t_mat_apply:
  fixes M :: "'a::comm_semiring_0 list list"
  assumes n: "0 < n" "length M = n" "\<And>i. i < n \<Longrightarrow> length (M ! i) = n"
    and X: "\<And>x. x \<in> set X \<Longrightarrow> length x = n"
  shows "matmul (*) X (t_mat M) = Inr (apply_matrix M X)"
proof -
  have "map (\<lambda>i. dot (*) x (M ! i)) [0..<n] = map (dot (*) x) M" for x :: "'a list"
    using map_nth_upt[of "dot (*) x" M] n(2) by simp
  then have e: "map (\<lambda>x. map (\<lambda>i. dot (*) x (M ! i)) [0..<n]) X = apply_matrix M X"
    by (simp add: apply_matrix_def)
  have "matmul (*) X (t_mat M) = Inr (map (\<lambda>x. map (\<lambda>i. dot (*) x (M ! i)) [0..<n]) X)"
    by (rule matmul_t_mat) (use n X in simp_all)
  then show ?thesis by (simp only: e)
qed

lemma length_apply_matrix_row:
  "y \<in> set (apply_matrix M X) \<Longrightarrow> length y = length M"
  by (auto simp: apply_matrix_def)

lemma dot_product_row:
  fixes x a :: "'a::comm_semiring_0 list"
  assumes x: "length x = n" and a: "length a = n"
    and B: "length B = n" "\<And>l. l < n \<Longrightarrow> length (B ! l) = n"
  shows "dot (*) x (map (\<lambda>j. dot (*) a (col j B)) [0..<n]) = dot (*) (map (dot (*) x) B) a"
proof -
  have lc: "length (col j B) = n" for j by (simp add: col_def B(1))
  have "dot (*) x (map (\<lambda>j. dot (*) a (col j B)) [0..<n])
          = (\<Sum>j<n. x ! j * dot (*) a (col j B))"
    by (subst dot_sum[of _ n]) (simp_all add: x)
  also have "\<dots> = (\<Sum>j<n. x ! j * (\<Sum>l<n. a ! l * B ! l ! j))"
  proof (intro sum.cong refl)
    fix j
    have "dot (*) a (col j B) = (\<Sum>l<n. a ! l * col j B ! l)"
      by (rule dot_sum[OF a lc])
    also have "\<dots> = (\<Sum>l<n. a ! l * B ! l ! j)"
      by (intro sum.cong refl) (simp add: col_def B(1))
    finally show "x ! j * dot (*) a (col j B) = x ! j * (\<Sum>l<n. a ! l * B ! l ! j)" by simp
  qed
  also have "\<dots> = (\<Sum>j<n. \<Sum>l<n. x ! j * B ! l ! j * a ! l)"
    by (simp add: sum_distrib_left mult_ac)
  also have "\<dots> = (\<Sum>l<n. \<Sum>j<n. x ! j * B ! l ! j * a ! l)"
    by (rule sum.swap)
  also have "\<dots> = (\<Sum>l<n. dot (*) x (B ! l) * a ! l)"
  proof (intro sum.cong refl)
    fix l assume "l \<in> {..<n}"
    then have l: "l < n" by simp
    have "dot (*) x (B ! l) = (\<Sum>j<n. x ! j * B ! l ! j)"
      by (rule dot_sum[OF x B(2)[OF l]])
    then show "(\<Sum>j<n. x ! j * B ! l ! j * a ! l) = dot (*) x (B ! l) * a ! l"
      by (simp add: sum_distrib_right)
  qed
  also have "\<dots> = (\<Sum>l<n. map (dot (*) x) B ! l * a ! l)"
    by (intro sum.cong refl) (simp add: B(1))
  also have "\<dots> = dot (*) (map (dot (*) x) B) a"
    by (rule dot_sum[symmetric]) (simp_all add: B(1) a)
  finally show ?thesis .
qed

lemma apply_matrix_product:
  fixes A B :: "'a::comm_semiring_0 list list"
  assumes A: "\<And>r. r \<in> set A \<Longrightarrow> length r = n"
    and B: "length B = n" "\<And>l. l < n \<Longrightarrow> length (B ! l) = n"
    and X: "\<And>x. x \<in> set X \<Longrightarrow> length x = n"
  shows "apply_matrix (map (\<lambda>r. map (\<lambda>j. dot (*) r (col j B)) [0..<n]) A) X
           = apply_matrix A (apply_matrix B X)"
proof -
  have "map (dot (*) x) (map (\<lambda>r. map (\<lambda>j. dot (*) r (col j B)) [0..<n]) A)
          = map (dot (*) (map (dot (*) x) B)) A" if "x \<in> set X" for x
    unfolding map_map comp_def
    by (intro map_cong refl dot_product_row X[OF that] A B)
  then show ?thesis by (simp add: apply_matrix_def)
qed

lemma ncols_rect:
  assumes "M \<noteq> []" "\<And>y. y \<in> set M \<Longrightarrow> length y = c"
  shows "ncols M = c"
  using assms by (cases M) (simp_all add: ncols_def)

lemma rect_rebuild:
  assumes "\<And>y. y \<in> set M \<Longrightarrow> length y = c"
  shows "map (\<lambda>r. map (\<lambda>j. M ! r ! j) [0..<c]) [0..<length M] = M"
proof (rule nth_equalityI)
  show "length (map (\<lambda>r. map (\<lambda>j. M ! r ! j) [0..<c]) [0..<length M]) = length M" by simp
next
  fix i assume "i < length (map (\<lambda>r. map (\<lambda>j. M ! r ! j) [0..<c]) [0..<length M])"
  then have i: "i < length M" by simp
  then have "length (M ! i) = c" using assms by simp
  then have "map (\<lambda>j. M ! i ! j) [0..<c] = M ! i"
    by (intro nth_equalityI) simp_all
  then show "map (\<lambda>r. map (\<lambda>j. M ! r ! j) [0..<c]) [0..<length M] ! i = M ! i"
    using i by simp
qed

lemma upt2: "[0..<2] = [0, 1]"
  by (simp add: upt_rec)

lemma same_shape_ncols:
  assumes "length Y1 = length Y2" "\<And>y. y \<in> set Y1 \<Longrightarrow> length y = c"
    "\<And>y. y \<in> set Y2 \<Longrightarrow> length y = c"
  shows "ncols Y1 = ncols Y2"
proof (cases "Y1 = []")
  case True
  then show ?thesis using assms(1) by (simp add: ncols_def)
next
  case False
  then have "Y2 \<noteq> []" using assms(1) by auto
  with False show ?thesis using assms(2,3) by (simp add: ncols_rect[of _ c])
qed

lemma stack_pair:
  assumes "length Y1 = length Y2" "\<And>y. y \<in> set Y1 \<Longrightarrow> length y = c"
    "\<And>y. y \<in> set Y2 \<Longrightarrow> length y = c"
  shows "stack [Y1, Y2] = Inr [Y1, Y2]"
  using same_shape_ncols[OF assms] assms(1) by (simp add: stack_def)

lemma mix_onehot:
  fixes Y1 Y2 :: "'a::real_vector list list"
  assumes "length Y1 = length Y2" "\<And>y. y \<in> set Y1 \<Longrightarrow> length y = c"
    "\<And>y. y \<in> set Y2 \<Longrightarrow> length y = c"
  shows "mix [1, 0] [Y1, Y2] = Inr Y1" and "mix [0, 1] [Y1, Y2] = Inr Y2"
proof -
  have nc: "map (\<lambda>r. map (\<lambda>j. M ! r ! j) [0..<ncols Y1]) [0..<length Y1] = M"
    if "length M = length Y1" "\<And>y. y \<in> set M \<Longrightarrow> length y = c" for M :: "'a list list"
  proof (cases "Y1 = []")
    case True
    then show ?thesis using that(1) by simp
  next
    case False
    then have "ncols Y1 = c" using assms(2) by (rule ncols_rect)
    then show ?thesis using rect_rebuild[of M c] that by simp
  qed
  show "mix [1, 0] [Y1, Y2] = Inr Y1"
    using nc[of Y1] assms(2) by (simp add: mix_def upt2)
  show "mix [0, 1] [Y1, Y2] = Inr Y2"
    using nc[of Y2] assms(1,3) by (simp add: mix_def upt2)
qed

lemma softmax_onehot:
  "softmax [Fin c, NegInf] = Inr [1, 0]" "softmax [NegInf, Fin c] = Inr [0, 1]"
  by (simp_all add: softmax_def exp_logit_def Let_def)

lemma probs_onehot:
  assumes "logit mp = Some [[Fin a, NegInf], [NegInf, Fin b]]" "softmax_fn mp = Some softmax"
    "0 < t"
  shows "probs mp t = Inr [[1, 0], [0, 1]]"
  using assms by (simp add: probs_def div_logit_def softmax_onehot)

lemma reduce_pair: "reduce f [A, B] = f A B"
  by (simp add: reduce_def bindE_Inr_id)

lemma mapE_pair: "f a = Inr a' \<Longrightarrow> f b = Inr b' \<Longrightarrow> mapE f [a, b] = Inr [a', b']"
  by simp

lemma apply_matrix_rows:
  "x \<in> set (apply_matrix M X) \<Longrightarrow> length x = length M"
  by (auto simp: apply_matrix_def)

lemma length_apply_matrix [simp]: "length (apply_matrix M X) = length X"
  by (simp add: apply_matrix_def)

lemma soft_step_onehot:
  fixes F1 F2 :: "'a::real_normed_field Butterfly"
  assumes V: "mul_op V = (*)"
    and F: "valid_factor F1" "valid_factor F2" "bsize F1 = bsize F2"
    and mp: "factors mp = [F1, F2]"
    and X: "\<And>x. x \<in> set X \<Longrightarrow> int (length x) = bsize F1"
  shows "soft_step V mp [[1, 0], [0, 1]] 0 X = Inr (apply_matrix (factor_matrix F1) X)"
    and "soft_step V mp [[1, 0], [0, 1]] 1 X = Inr (apply_matrix (factor_matrix F2) X)"
proof -
  let ?Y1 = "apply_matrix (factor_matrix F1) X" and ?Y2 = "apply_matrix (factor_matrix F2) X"
  have f1: "Butterfly_forward V F1 X = Inr ?Y1"
    by (rule Butterfly_forward_apply[OF V F(1)]) (rule X)
  have f2: "Butterfly_forward V F2 X = Inr ?Y2"
    by (rule Butterfly_forward_apply[OF V F(2)]) (simp add: X F(3)[symmetric])
  have outs: "mapE (\<lambda>factor. Butterfly_forward V factor X) (factors mp) = Inr [?Y1, ?Y2]"
    unfolding mp by (simp only: mapE.simps f1 f2 sum.case)
  have sh: "length ?Y1 = length ?Y2" by simp
  have r1: "length y = nat (bsize F1)" if "y \<in> set ?Y1" for y
    using apply_matrix_rows[OF that] by simp
  have r2: "length y = nat (bsize F1)" if "y \<in> set ?Y2" for y
    using apply_matrix_rows[OF that] F(3) by simp
  have st: "stack [?Y1, ?Y2] = Inr [?Y1, ?Y2]"
    using sh r1 r2 by (rule stack_pair)
  have m0: "mix [1, 0] [?Y1, ?Y2] = Inr ?Y1" using sh r1 r2 by (rule mix_onehot(1))
  have m1: "mix [0, 1] [?Y1, ?Y2] = Inr ?Y2" using sh r1 r2 by (rule mix_onehot(2))
  show "soft_step V mp [[1, 0], [0, 1]] 0 X = Inr ?Y1"
    unfolding soft_step_def by (simp add: outs st m0)
  show "soft_step V mp [[1, 0], [0, 1]] 1 X = Inr ?Y2"
    unfolding soft_step_def by (simp add: outs st m1)
qed

lemma composer_generic:
  fixes F1 F2 :: "'a::real_normed_field Butterfly"
  assumes V: "mul_op V = (*)" "diag_matrix V = torch_diag" "matmul_op V = matmul (*)"
    and F: "valid_factor F1" "valid_factor F2" "bsize F1 = bsize F2"
    and X: "\<And>x. x \<in> set X \<Longrightarrow> int (length x) = bsize F1" and t: "0 < t"
  shows "\<exists>M1 M2 M Y. Butterfly_matrix V F1 = Inr M1 \<and> Butterfly_matrix V F2 = Inr M2
      \<and> matmul_op V M1 M2 = Inr M
      \<and> MatrixProduct_matrix V (fixed_composer F1 F2) t = Inr M
      \<and> MatrixProduct_matrix V (onehot_composer a b F1 F2) t = Inr M
      \<and> MatrixProduct_forward V (fixed_composer F1 F2) X t = Inr Y
      \<and> MatrixProduct_forward V (onehot_composer a b F1 F2) X t = Inr Y
      \<and> matmul_op V X (t_mat M) = Inr Y"
proof -
  define n where "n = nat (bsize F1)"
  let ?M1 = "factor_matrix F1" and ?M2 = "factor_matrix F2"
  define P where "P = map (\<lambda>r. map (\<lambda>j. dot (*) r (col j ?M2)) [0..<n]) ?M1"
  define Y2 where "Y2 = apply_matrix ?M2 X"
  define Y where "Y = apply_matrix ?M1 Y2"
  have npos: "0 < n" using F(1) by (simp add: n_def valid_factor_def)
  have l1: "length ?M1 = n" and l2: "length ?M2 = n" using F(3) by (simp_all add: n_def)
  have rw1: "length (?M1 ! i) = n" if "i < n" for i using that by (simp add: n_def)
  have rw2: "length (?M2 ! i) = n" if "i < n" for i using that F(3) by (simp add: n_def)
  have s1: "length r = n" if "r \<in> set ?M1" for r
    using that l1 rw1 by (auto simp: in_set_conv_nth)
  have s2: "length r = n" if "r \<in> set ?M2" for r
    using that l2 rw2 by (auto simp: in_set_conv_nth)
  have lx: "length x = n" if "x \<in> set X" for x using X[OF that] by (simp add: n_def)
  have bm1: "Butterfly_matrix V F1 = Inr ?M1" by (rule Butterfly_matrix_band[OF V(2) F(1)])
  have bm2: "Butterfly_matrix V F2 = Inr ?M2" by (rule Butterfly_matrix_band[OF V(2) F(2)])
  have mm: "matmul (*) ?M1 ?M2 = Inr P"
    unfolding P_def by (rule matmul_square[OF npos l1 rw1 l2 rw2])
  have ms: "mapE (Butterfly_matrix V) [F1, F2] = Inr [?M1, ?M2]"
    by (simp only: mapE.simps bm1 bm2 sum.case)
  have fo: "fixed_order (fixed_composer F1 F2) = True"
    "factors (fixed_composer F1 F2) = [F1, F2]"
    "rev [F1, F2] = [F2, F1]"
    by (simp_all add: fixed_composer_def)
  have nfo: "fixed_order (onehot_composer a b F1 F2) = False"
    "factors (onehot_composer a b F1 F2) = [F1, F2]"
    by (simp_all add: onehot_composer_def)
  have fixm: "MatrixProduct_matrix V (fixed_composer F1 F2) t = Inr P"
    unfolding MatrixProduct_matrix_def
    by (simp only: fo if_True ms bindE_Inr reduce_pair V(3) mm)
  have pr: "probs (onehot_composer a b F1 F2) t = Inr [[1, 0], [0, 1]]"
    by (rule probs_onehot) (simp_all add: onehot_composer_def t)
  have st: "stack [?M1, ?M2] = Inr [?M1, ?M2]"
    by (rule stack_pair[of _ _ n]) (simp_all add: s1 s2 F(3) n_def)
  have mx: "mapE (\<lambda>p. mix p [?M1, ?M2]) [[1, 0], [0, 1]] = Inr [?M1, ?M2]"
  proof -
    have a: "mix [1, 0] [?M1, ?M2] = Inr ?M1"
      by (rule mix_onehot(1)[of _ _ n]) (simp_all add: s1 s2 F(3) n_def)
    have b: "mix [0, 1] [?M1, ?M2] = Inr ?M2"
      by (rule mix_onehot(2)[of _ _ n]) (simp_all add: s1 s2 F(3) n_def)
    show ?thesis by (simp only: mapE.simps a b sum.case)
  qed
  have lrnm: "MatrixProduct_matrix V (onehot_composer a b F1 F2) t = Inr P"
    unfolding MatrixProduct_matrix_def
    by (simp only: nfo if_False pr ms st mx bindE_Inr reduce_pair V(3) mm)
  have f2: "Butterfly_forward V F2 X = Inr Y2"
    unfolding Y2_def by (rule Butterfly_forward_apply[OF V(1) F(2)]) (simp add: X F(3)[symmetric])
  have ly2: "int (length y) = bsize F1" if "y \<in> set Y2" for y
    using apply_matrix_rows[OF that[unfolded Y2_def]] F(1,3) by (simp add: valid_factor_def)
  have f1: "Butterfly_forward V F1 Y2 = Inr Y"
    unfolding Y_def by (rule Butterfly_forward_apply[OF V(1) F(1)]) (rule ly2)
  have fixf: "MatrixProduct_forward V (fixed_composer F1 F2) X t = Inr Y"
    unfolding MatrixProduct_forward_def
    by (simp only: fo if_True chain.simps f2 f1 bindE_Inr)
  note fs = nfo(2)
  have st1: "soft_step V (onehot_composer a b F1 F2) [[1, 0], [0, 1]] 1 X = Inr Y2"
    unfolding Y2_def by (rule soft_step_onehot(2)[OF V(1) F fs]) (rule X)
  have st0: "soft_step V (onehot_composer a b F1 F2) [[1, 0], [0, 1]] 0 Y2 = Inr Y"
    unfolding Y_def by (rule soft_step_onehot(1)[OF V(1) F fs]) (rule ly2)
  have r: "rev [0..<nat (n_terms (onehot_composer a b F1 F2))] = [1, 0]"
    by (simp add: onehot_composer_def upt2)
  have lrnf: "MatrixProduct_forward V (onehot_composer a b F1 F2) X t = Inr Y"
    unfolding MatrixProduct_forward_def r
    by (simp only: nfo if_False pr chain.simps st1 st0 bindE_Inr)
  have lP: "length P = n" by (simp add: P_def n_def)
  have rP: "length (P ! i) = n" if "i < n" for i using that by (simp add: P_def n_def)
  have "matmul (*) X (t_mat P) = Inr (apply_matrix P X)"
    by (rule matmul_t_mat_apply[OF npos lP rP lx])
  also have "apply_matrix P X = Y"
    unfolding P_def Y_def Y2_def
    by (rule apply_matrix_product[OF s1 l2 rw2 lx])
  finally have fin: "matmul (*) X (t_mat P) = Inr Y" .
  from bm1 bm2 mm fixm lrnm fixf lrnf fin show ?thesis
    unfolding V(3) by blast
qed

text \<open>
  C3. For a composer over two factors \<open>F1\<close>, \<open>F2\<close> of the same size (each with
  \<open>0 < k < n\<close>), real or complex: in fixed-order mode, and in learned-order mode with
  the one-hot logits \<open>[[a, -inf], [-inf, b]]\<close> at a temperature \<open>t > 0\<close>, \<open>matrix()\<close> is
  the product of the matrix of \<open>F1\<close> with the matrix of \<open>F2\<close>, in this order, and
  \<open>forward(x)\<close> is \<open>x @ matrix().t()\<close> for every batch of inputs of length \<open>n\<close>.
  The floats are read as real numbers.
\<close>

theorem MatrixProduct_two_factors:
  assumes "valid_factor F1" "valid_factor F2" "bsize F1 = bsize F2"
    "\<forall>x \<in> set X. int (length x) = bsize F1"
    and "valid_factor G1" "valid_factor G2" "bsize G1 = bsize G2"
    "\<forall>z \<in> set Z. int (length z) = bsize G1"
    and "0 < t"
  shows "(\<exists>M1 M2 M Y. Butterfly_matrix real_variant F1 = Inr M1
            \<and> Butterfly_matrix real_variant F2 = Inr M2
            \<and> matmul (*) M1 M2 = Inr M
            \<and> MatrixProduct_matrix real_variant (fixed_composer F1 F2) t = Inr M
            \<and> MatrixProduct_matrix real_variant (onehot_composer a b F1 F2) t = Inr M
            \<and> MatrixProduct_forward real_variant (fixed_composer F1 F2) X t = Inr Y
            \<and> MatrixProduct_forward real_variant (onehot_composer a b F1 F2) X t = Inr Y
            \<and> matmul (*) X (t_mat M) = Inr Y)
       \<and> (\<exists>M1 M2 M Y. Butterfly_matrix complex_variant G1 = Inr M1
            \<and> Butterfly_matrix complex_variant G2 = Inr M2
            \<and> complex_matmul M1 M2 = Inr M
            \<and> MatrixProduct_matrix complex_variant (fixed_composer G1 G2) t = Inr M
            \<and> MatrixProduct_matrix complex_variant (onehot_composer a b G1 G2) t = Inr M
            \<and> MatrixProduct_forward complex_variant (fixed_composer G1 G2) Z t = Inr Y
            \<and> MatrixProduct_forward complex_variant (onehot_composer a b G1 G2) Z t = Inr Y
            \<and> complex_matmul Z (t_mat M) = Inr Y)"
proof
  have r: "mul_op real_variant = (*)" "diag_matrix real_variant = torch_diag"
    "matmul_op real_variant = matmul (*)"
    by (simp_all add: real_variant_def)
  have x: "int (length x) = bsize F1" if "x \<in> set X" for x using assms(4) that by simp
  show "\<exists>M1 M2 M Y. Butterfly_matrix real_variant F1 = Inr M1
            \<and> Butterfly_matrix real_variant F2 = Inr M2
            \<and> matmul (*) M1 M2 = Inr M
            \<and> MatrixProduct_matrix real_variant (fixed_composer F1 F2) t = Inr M
            \<and> MatrixProduct_matrix real_variant (onehot_composer a b F1 F2) t = Inr M
            \<and> MatrixProduct_forward real_variant (fixed_composer F1 F2) X t = Inr Y
            \<and> MatrixProduct_forward real_variant (onehot_composer a b F1 F2) X t = Inr Y
            \<and> matmul (*) X (t_mat M) = Inr Y"
    using composer_generic[OF r assms(1,2,3) x assms(9), of X a b] unfolding r(3) by simp
next
  have cm: "complex_matmul = matmul (*)"
    by (intro ext) (simp add: complex_matmul_def complex_mul_times)
  have c: "mul_op complex_variant = (*)" "diag_matrix complex_variant = torch_diag"
    "matmul_op complex_variant = matmul (*)"
    by (simp_all add: complex_variant_def complex_mul_times cm)
       (intro ext, simp add: diag_embed_torch_diag)
  have z: "int (length z) = bsize G1" if "z \<in> set Z" for z using assms(8) that by simp
  show "\<exists>M1 M2 M Y. Butterfly_matrix complex_variant G1 = Inr M1
            \<and> Butterfly_matrix complex_variant G2 = Inr M2
            \<and> complex_matmul M1 M2 = Inr M
            \<and> MatrixProduct_matrix complex_variant (fixed_composer G1 G2) t = Inr M
            \<and> MatrixProduct_matrix complex_variant (onehot_composer a b G1 G2) t = Inr M
            \<and> MatrixProduct_forward complex_variant (fixed_composer G1 G2) Z t = Inr Y
            \<and> MatrixProduct_forward complex_variant (onehot_composer a b G1 G2) Z t = Inr Y
            \<and> complex_matmul Z (t_mat M) = Inr Y"
    using composer_generic[OF c assms(5,6,7) z assms(9), of Z a b] unfolding c(3) cm by simp
qed

lemma MatrixProduct_init_fixed:
  "MatrixProduct_init sp g [F1, F2] None True name = Inr (fixed_composer F1 F2)"
  by (simp add: MatrixProduct_init_def fixed_composer_def)

lemma MatrixProduct_init_onehot:
  "MatrixProduct_init sp g [F1, F2] None False ''softmax'' = Inr mp \<Longrightarrow>
   mp\<lparr>logit := Some [[Fin a, NegInf], [NegInf, Fin b]]\<rparr> = onehot_composer a b F1 F2"
  by (auto simp: MatrixProduct_init_def onehot_composer_def randn2_def bindE_eq_Inr)

theorem MatrixProduct_two_factors_witness:
  "valid_factor sample_factor \<and> bsize sample_factor = bsize sample_factor
   \<and> int (length [5, 6 :: real]) = bsize sample_factor
   \<and> valid_factor test_factor \<and> bsize test_factor = bsize test_factor
   \<and> int (length [1, 2, 3, Complex 0 1]) = bsize test_factor \<and> (0 :: real) < 1
   \<and> (\<exists>M1 M2 M Y. Butterfly_matrix real_variant sample_factor = Inr M1
          \<and> Butterfly_matrix real_variant sample_factor = Inr M2
          \<and> matmul (*) M1 M2 = Inr M
          \<and> MatrixProduct_matrix real_variant (fixed_composer sample_factor sample_factor) 1
                = Inr M
          \<and> MatrixProduct_matrix real_variant (onehot_composer 1 1 sample_factor sample_factor) 1
                = Inr M
          \<and> MatrixProduct_forward real_variant (fixed_composer sample_factor sample_factor)
                [[5, 6]] 1 = Inr Y
          \<and> MatrixProduct_forward real_variant (onehot_composer 1 1 sample_factor sample_factor)
                [[5, 6]] 1 = Inr Y
          \<and> matmul (*) [[5, 6]] (t_mat M) = Inr Y)
   \<and> (\<exists>M1 M2 M Y. Butterfly_matrix complex_variant test_factor = Inr M1
          \<and> Butterfly_matrix complex_variant test_factor = Inr M2
          \<and> complex_matmul M1 M2 = Inr M
          \<and> MatrixProduct_matrix complex_variant (fixed_composer test_factor test_factor) 1
                = Inr M
          \<and> MatrixProduct_matrix complex_variant (onehot_composer 1 1 test_factor test_factor) 1
                = Inr M
          \<and> MatrixProduct_forward complex_variant (fixed_composer test_factor test_factor)
                [[1, 2, 3, Complex 0 1]] 1 = Inr Y
          \<and> MatrixProduct_forward complex_variant (onehot_composer 1 1 test_factor test_factor)
                [[1, 2, 3, Complex 0 1]] 1 = Inr Y
          \<and> complex_matmul [[1, 2, 3, Complex 0 1]] (t_mat M) = Inr Y)"
proof -
  have h1: "valid_factor sample_factor"
    by (simp add: valid_factor_def sample_factor_def)
  have h2: "\<forall>x \<in> set [[5, 6 :: real]]. int (length x) = bsize sample_factor"
    by (simp add: sample_factor_def)
  have h3: "valid_factor test_factor"
    by (simp add: valid_factor_def test_factor_def test_diag_def test_subdiag_def)
  have h4: "\<forall>x \<in> set [[1, 2, 3, Complex 0 1]]. int (length x) = bsize test_factor"
    by (simp add: test_factor_def)
  have l1: "int (length [5, 6 :: real]) = bsize sample_factor"
    by (simp add: sample_factor_def)
  have l2: "int (length [1, 2, 3, Complex 0 1]) = bsize test_factor"
    by (simp add: test_factor_def)
  have t: "(0 :: real) < 1" by simp
  note r = MatrixProduct_two_factors [OF h1 h1 refl h2 h3 h3 refl h4 t, of 1 1]
  show ?thesis
    by (intro conjI h1 l1 h3 l2 t refl conjunct1 [OF r] conjunct2 [OF r])
qed

end
